theory Spec2Isabelle
  imports Complex_Main "HOL-Library.Multiset"
begin

section \<open>JavaScript values and the runtime primitives the table component calls\<close>

text \<open>
  The table component (Table.tsx) is a pure pipeline over rows: search and per-column
  filters (\<open>filteredData\<close>), a sort (\<open>sortedData\<close>), a page slice (\<open>pagedData\<close>), the
  sticky offset (\<open>getStickyLeft\<close>) and the handlers of the multi-select dropdown.

  Field values are JavaScript values. Numbers are modelled as integers; the result of a
  numeric conversion is an \<open>int option\<close> whose \<open>None\<close> is NaN. Strings are byte
  strings, and case folding and whitespace are the ASCII ones.
\<close>

datatype jsval = Undefined | Null | Str string | Num int

type_synonym num = "int option"

definition truthy :: "jsval \<Rightarrow> bool" where
  "truthy v = (case v of Undefined \<Rightarrow> False | Null \<Rightarrow> False | Str s \<Rightarrow> s \<noteq> [] | Num n \<Rightarrow> n \<noteq> 0)"

text \<open>\<open>v == null\<close> (loose equality) holds of \<open>null\<close> and \<open>undefined\<close> only.\<close>

definition isNullish :: "jsval \<Rightarrow> bool" where
  "isNullish v = (v = Undefined \<or> v = Null)"

fun natToString :: "nat \<Rightarrow> string" where
  "natToString n =
     (if n < 10 then [''0123456789'' ! n]
      else natToString (n div 10) @ [''0123456789'' ! (n mod 10)])"

declare natToString.simps [simp del]

definition intToString :: "int \<Rightarrow> string" where
  "intToString n = (if n < 0 then CHR ''-'' # natToString (nat (- n)) else natToString (nat n))"

text \<open>\<open>String(v)\<close>.\<close>

definition jsString :: "jsval \<Rightarrow> string" where
  "jsString v =
     (case v of Undefined \<Rightarrow> ''undefined'' | Null \<Rightarrow> ''null'' | Str s \<Rightarrow> s | Num n \<Rightarrow> intToString n)"

definition lowerTable :: "(char \<times> char) list" where
  "lowerTable = zip ''ABCDEFGHIJKLMNOPQRSTUVWXYZ'' ''abcdefghijklmnopqrstuvwxyz''"

definition toLowerChar :: "char \<Rightarrow> char" where
  "toLowerChar c = (case map_of lowerTable c of None \<Rightarrow> c | Some d \<Rightarrow> d)"

definition toLowerCase :: "string \<Rightarrow> string" where
  "toLowerCase s = map toLowerChar s"

definition isSpace :: "char \<Rightarrow> bool" where
  "isSpace c = (c \<in> set [CHR '' '', CHR 0x09, CHR 0x0A, CHR 0x0B, CHR 0x0C, CHR 0x0D])"

definition trim :: "string \<Rightarrow> string" where
  "trim s = rev (dropWhile isSpace (rev (dropWhile isSpace s)))"

fun startsWith :: "string \<Rightarrow> string \<Rightarrow> bool" where
  "startsWith s [] = True"
| "startsWith [] (c # cs) = False"
| "startsWith (d # ds) (c # cs) = (d = c \<and> startsWith ds cs)"

text \<open>\<open>hay.includes(needle)\<close> on strings: the needle occurs at some position.\<close>

fun includesStr :: "string \<Rightarrow> string \<Rightarrow> bool" where
  "includesStr [] needle = (needle = [])"
| "includesStr (c # cs) needle = (startsWith (c # cs) needle \<or> includesStr cs needle)"

definition endsWith :: "string \<Rightarrow> string \<Rightarrow> bool" where
  "endsWith s suffix =
     (length suffix \<le> length s \<and> drop (length s - length suffix) s = suffix)"

text \<open>Comparison of numbers: every comparison with NaN is false.\<close>

definition numEq :: "num \<Rightarrow> num \<Rightarrow> bool" where
  "numEq a b = (case (a, b) of (Some x, Some y) \<Rightarrow> x = y | _ \<Rightarrow> False)"

definition numLt :: "num \<Rightarrow> num \<Rightarrow> bool" where
  "numLt a b = (case (a, b) of (Some x, Some y) \<Rightarrow> x < y | _ \<Rightarrow> False)"

definition numLe :: "num \<Rightarrow> num \<Rightarrow> bool" where
  "numLe a b = (case (a, b) of (Some x, Some y) \<Rightarrow> x \<le> y | _ \<Rightarrow> False)"

definition numGt :: "num \<Rightarrow> num \<Rightarrow> bool" where
  "numGt a b = numLt b a"

definition numGe :: "num \<Rightarrow> num \<Rightarrow> bool" where
  "numGe a b = numLe b a"

definition numAdd :: "num \<Rightarrow> num \<Rightarrow> num" where
  "numAdd a b = (case (a, b) of (Some x, Some y) \<Rightarrow> Some (x + y) | _ \<Rightarrow> None)"

text \<open>
  \<open>parseInt(s)\<close> with no radix: leading whitespace, a sign, an optional \<open>0x\<close> prefix
  (radix 16), then the longest run of digits; NaN when that run is empty.
\<close>

definition digitTable :: "(char \<times> nat) list" where
  "digitTable = zip ''0123456789abcdef'' [0, 1, 2, 3, 4, 5, 6, 7, 8, 9, 10, 11, 12, 13, 14, 15]"

definition digitOf :: "nat \<Rightarrow> char \<Rightarrow> nat option" where
  "digitOf radix c =
     (case map_of digitTable (toLowerChar c) of
        None \<Rightarrow> None
      | Some d \<Rightarrow> if d < radix then Some d else None)"

definition digitsValue :: "nat \<Rightarrow> string \<Rightarrow> nat" where
  "digitsValue radix ds =
     foldl (\<lambda>acc c. acc * radix + (case digitOf radix c of Some d \<Rightarrow> d | None \<Rightarrow> 0)) 0 ds"

definition parseInt :: "string \<Rightarrow> num" where
  "parseInt s =
     (let t = dropWhile isSpace s;
          neg = startsWith t ''-'';
          u = (if startsWith t ''-'' \<or> startsWith t ''+'' then drop 1 t else t);
          hex = (startsWith u ''0x'' \<or> startsWith u ''0X'');
          radix = (if hex then 16 else 10);
          w = (if hex then drop 2 u else u);
          ds = takeWhile (\<lambda>c. digitOf radix c \<noteq> None) w
      in if ds = [] then None
         else Some ((if neg then - 1 else 1) * int (digitsValue radix ds)))"

text \<open>\<open>xs.slice(start, fin)\<close>: negative arguments count from the end, both are clamped.\<close>

definition slice :: "'a list \<Rightarrow> int \<Rightarrow> int \<Rightarrow> 'a list" where
  "slice xs start fin =
     (let len = int (length xs);
          k = (if start < 0 then max (len + start) 0 else min start len);
          final = (if fin < 0 then max (len + fin) 0 else min fin len)
      in take (nat (final - k)) (drop (nat k) xs))"

text \<open>
  \<open>xs.sort(cmp)\<close> is the engine's, not the component's, which passes a comparator and
  nothing else. ECMAScript 2019 requires the sort to be stable, and where the comparator is
  not a consistent order it leaves the result to the engine. Two engines are modelled. The
  first is the stable insertion sort that places an element before the first one it does
  not exceed under \<open>cmp\<close>.
\<close>

fun insertBy :: "('a \<Rightarrow> 'a \<Rightarrow> int) \<Rightarrow> 'a \<Rightarrow> 'a list \<Rightarrow> 'a list" where
  "insertBy cmp x [] = [x]"
| "insertBy cmp x (y # ys) = (if cmp x y \<le> 0 then x # y # ys else y # insertBy cmp x ys)"

definition sortBy :: "('a \<Rightarrow> 'a \<Rightarrow> int) \<Rightarrow> 'a list \<Rightarrow> 'a list" where
  "sortBy cmp xs = foldr (insertBy cmp) xs []"

text \<open>
  The second is the sort of V8 (Node, Chrome) on arrays of fewer than 64 elements, where its
  TimSort is one run, found by \<open>CountAndMakeRun\<close> and extended to the whole array by
  \<open>BinaryInsertionSort\<close>. The run is the longest prefix whose consecutive elements
  compare all \<open>< 0\<close> (it is then reversed) or all \<open>\<ge> 0\<close>, the comparator being called
  with the later element first. Every further element is the pivot of a binary search over
  the sorted part, the comparator being called with the pivot first, and is inserted at the
  position found. Longer arrays are merged from several runs, which the definition does not
  follow.
\<close>

function binarySearch :: "('a \<Rightarrow> 'a \<Rightarrow> int) \<Rightarrow> 'a \<Rightarrow> 'a list \<Rightarrow> nat \<Rightarrow> nat \<Rightarrow> nat" where
  "binarySearch cmp pivot work left right =
     (if left < right then
        (let mid = left + (right - left) div 2
         in if cmp pivot (work ! mid) < 0 then binarySearch cmp pivot work left mid
            else binarySearch cmp pivot work (Suc mid) right)
      else left)"
  by pat_completeness auto
termination
  by (relation "measure (\<lambda>(cmp, pivot, work, left, right). right - left)") auto

declare binarySearch.simps [simp del]

definition binaryInsert :: "('a \<Rightarrow> 'a \<Rightarrow> int) \<Rightarrow> 'a list \<Rightarrow> 'a \<Rightarrow> 'a list" where
  "binaryInsert cmp work pivot =
     (let left = binarySearch cmp pivot work 0 (length work)
      in take left work @ pivot # drop left work)"

text \<open>The number of elements after \<open>previousElement\<close> that continue the run.\<close>

fun extendRun :: "('a \<Rightarrow> 'a \<Rightarrow> int) \<Rightarrow> bool \<Rightarrow> 'a \<Rightarrow> 'a list \<Rightarrow> nat" where
  "extendRun cmp isDescending previousElement [] = 0"
| "extendRun cmp isDescending previousElement (currentElement # rest) =
     (let order = cmp currentElement previousElement
      in if (if isDescending then order \<ge> 0 else order < 0) then 0
         else Suc (extendRun cmp isDescending currentElement rest))"

definition v8Sort :: "('a \<Rightarrow> 'a \<Rightarrow> int) \<Rightarrow> 'a list \<Rightarrow> 'a list" where
  "v8Sort cmp xs =
     (case xs of
        elementHigh # elementLow # rest \<Rightarrow>
          (let isDescending = (cmp elementLow elementHigh < 0);
               runLength = 2 + extendRun cmp isDescending elementLow rest;
               run = (if isDescending then rev (take runLength xs) else take runLength xs)
           in foldl (binaryInsert cmp) run (drop runLength xs))
      | _ \<Rightarrow> xs)"

text \<open>
  The conversions whose result depends on the engine or the locale are parameters of the
  model: \<open>Date.parse\<close> on a string (the time value in milliseconds, \<open>None\<close> for an
  invalid date), the conversion of a string to a number (\<open>None\<close> for NaN) and
  \<open>String.prototype.localeCompare\<close>.
\<close>

record host =
  dateParse :: "string \<Rightarrow> num"
  stringToNumber :: "string \<Rightarrow> num"
  localeCompare :: "string \<Rightarrow> string \<Rightarrow> int"

text \<open>\<open>Number(v)\<close> of a field value.\<close>

definition jsNumber :: "host \<Rightarrow> jsval \<Rightarrow> num" where
  "jsNumber h v =
     (case v of Undefined \<Rightarrow> None | Null \<Rightarrow> Some 0 | Str s \<Rightarrow> stringToNumber h s | Num n \<Rightarrow> Some n)"

definition timeClip :: "int \<Rightarrow> num" where
  "timeClip t = (if \<bar>t\<bar> \<le> 8640000000000000 then Some t else None)"

text \<open>\<open>new Date(v)\<close>, as its time value.\<close>

definition newDate :: "host \<Rightarrow> jsval \<Rightarrow> num" where
  "newDate h v =
     (case v of Undefined \<Rightarrow> None | Null \<Rightarrow> Some 0 | Str s \<Rightarrow> dateParse h s | Num n \<Rightarrow> timeClip n)"

subsection \<open>A concrete host: ISO dates, decimal integers, code-unit order\<close>

definition parseDigits :: "string \<Rightarrow> nat option" where
  "parseDigits s =
     (if s \<noteq> [] \<and> list_all (\<lambda>c. digitOf 10 c \<noteq> None) s then Some (digitsValue 10 s) else None)"

definition isLeap :: "int \<Rightarrow> bool" where
  "isLeap y = (y mod 4 = 0 \<and> (y mod 100 \<noteq> 0 \<or> y mod 400 = 0))"

definition daysInMonth :: "int \<Rightarrow> int \<Rightarrow> int" where
  "daysInMonth y m =
     (if m = 2 then (if isLeap y then 29 else 28)
      else if m = 4 \<or> m = 6 \<or> m = 9 \<or> m = 11 then 30 else 31)"

definition daysFromCivil :: "int \<Rightarrow> int \<Rightarrow> int \<Rightarrow> int" where
  "daysFromCivil y m d =
     (let y' = (if m \<le> 2 then y - 1 else y);
          era = y' div 400;
          yoe = y' - era * 400;
          doy = (153 * (if m > 2 then m - 3 else m + 9) + 2) div 5 + d - 1;
          doe = yoe * 365 + yoe div 4 - yoe div 100 + doy
      in era * 146097 + doe - 719468)"

definition isoDateParse :: "string \<Rightarrow> num" where
  "isoDateParse s =
     (if length s = 10 \<and> s ! 4 = CHR ''-'' \<and> s ! 7 = CHR ''-'' then
        (case (parseDigits (take 4 s), parseDigits (take 2 (drop 5 s)), parseDigits (drop 8 s)) of
           (Some y, Some m, Some d) \<Rightarrow>
             if 1 \<le> m \<and> m \<le> 12 \<and> 1 \<le> d \<and> int d \<le> daysInMonth (int y) (int m)
             then Some (daysFromCivil (int y) (int m) (int d) * 86400000)
             else None
         | _ \<Rightarrow> None)
      else None)"

definition decimalToNumber :: "string \<Rightarrow> num" where
  "decimalToNumber s =
     (let t = trim s;
          u = (if startsWith t ''-'' \<or> startsWith t ''+'' then drop 1 t else t)
      in if t = [] then Some 0
         else (case parseDigits u of
                 None \<Rightarrow> None
               | Some n \<Rightarrow> Some ((if startsWith t ''-'' then - 1 else 1) * int n)))"

fun codeUnitCompare :: "string \<Rightarrow> string \<Rightarrow> int" where
  "codeUnitCompare [] [] = 0"
| "codeUnitCompare [] (c # cs) = - 1"
| "codeUnitCompare (d # ds) [] = 1"
| "codeUnitCompare (d # ds) (c # cs) =
     (if d = c then codeUnitCompare ds cs
      else if (of_char d :: nat) < of_char c then - 1 else 1)"

definition isoHost :: host where
  "isoHost = \<lparr> dateParse = isoDateParse, stringToNumber = decimalToNumber,
               localeCompare = codeUnitCompare \<rparr>"

section \<open>Data model\<close>

datatype colType = TString | TDate | TInteger | THtml

datatype filterKind = FSearch | FDropdown | FDate | FInteger

datatype wrapKind = WNormal | WNowrap | WBreakWord

text \<open>\<open>TableColumn<T>\<close>; an optional property is an \<open>option\<close>. The cell renderer is left out.\<close>

record column =
  key :: string
  header :: string
  width :: "string option"
  wrap :: "wrapKind option"
  filterable :: "bool option"
  type :: "colType option"
  renderHTML :: "bool option"
  sticky :: "bool option"
  filterType :: "filterKind option"
  filterOptions :: "string list option"

text \<open>A row is an object; a property it does not have reads as \<open>undefined\<close>.\<close>

type_synonym row = "(string \<times> jsval) list"

definition getField :: "row \<Rightarrow> string \<Rightarrow> jsval" where
  "getField r k = (case map_of r k of None \<Rightarrow> Undefined | Some v \<Rightarrow> v)"

text \<open>
  \<open>FilterState\<close>: per column key an entry \<open>{op, value, value2?}\<close>. The declared type of
  \<open>value\<close> is \<open>string | string[]\<close>; the filter inputs also build entries that have no
  \<open>value\<close> yet, so it can be \<open>undefined\<close>.
\<close>

datatype fval = FUndefined | FString string | FArray "string list"

record filterEntry =
  op :: string
  val :: fval
  value2 :: "string option"

type_synonym filterState = "string \<rightharpoonup> filterEntry"

definition fvalTruthy :: "fval \<Rightarrow> bool" where
  "fvalTruthy v = (case v of FUndefined \<Rightarrow> False | FString s \<Rightarrow> s \<noteq> [] | FArray xs \<Rightarrow> True)"

fun joinComma :: "string list \<Rightarrow> string" where
  "joinComma [] = []"
| "joinComma [x] = x"
| "joinComma (x # y # ys) = x @ '','' @ joinComma (y # ys)"

text \<open>\<open>Number(filter.value)\<close>: an array is converted through its string, the elements joined by commas.\<close>

definition fvalNumber :: "host \<Rightarrow> fval \<Rightarrow> num" where
  "fvalNumber h v =
     (case v of FUndefined \<Rightarrow> None | FString s \<Rightarrow> stringToNumber h s
      | FArray xs \<Rightarrow> stringToNumber h (joinComma xs))"

datatype direction = Asc | Desc

record sortState =
  sortKey :: string
  direction :: direction

section \<open>Filter engine: \<open>filteredData\<close>\<close>

definition getDropdownFilterValue :: "fval \<Rightarrow> string list" where
  "getDropdownFilterValue v =
     (if \<not> fvalTruthy v then []
      else case v of
             FArray xs \<Rightarrow> xs
           | FString s \<Rightarrow> (if s \<noteq> [] then [s] else [])
           | FUndefined \<Rightarrow> [])"

text \<open>\<open>rowDate\<close>: \<open>row[col.key] ? new Date(row[col.key]) : null\<close>; \<open>None\<close> is \<open>null\<close>.\<close>

definition rowDate :: "host \<Rightarrow> column \<Rightarrow> row \<Rightarrow> num option" where
  "rowDate h col r =
     (if truthy (getField r (key col)) then Some (newDate h (getField r (key col))) else None)"

text \<open>
  The branch of a column with \<open>type === 'date'\<close>. The result is the predicate handed to
  \<open>filtered.filter\<close>, or \<open>None\<close> when no branch assigns \<open>filtered\<close>.
\<close>

definition datePredicate :: "host \<Rightarrow> column \<Rightarrow> filterEntry \<Rightarrow> (row \<Rightarrow> bool) option" where
  "datePredicate h col flt =
     (case val flt of
        FString v \<Rightarrow>
          (if op flt = ''range'' \<and> v \<noteq> [] \<and> value2 flt \<noteq> None \<and> value2 flt \<noteq> Some [] then
             (case value2 flt of
                Some v2 \<Rightarrow>
                  Some (\<lambda>r. case rowDate h col r of
                              None \<Rightarrow> False
                            | Some d \<Rightarrow> numGe d (newDate h (Str v)) \<and> numLe d (newDate h (Str v2)))
              | None \<Rightarrow> None)
           else if op flt = ''before'' \<and> v \<noteq> [] then
             Some (\<lambda>r. case rowDate h col r of
                         None \<Rightarrow> False
                       | Some d \<Rightarrow> numLt d (newDate h (Str v)))
           else if op flt = ''after'' \<and> v \<noteq> [] then
             Some (\<lambda>r. case rowDate h col r of
                         None \<Rightarrow> False
                       | Some d \<Rightarrow> numGt d (newDate h (Str v)))
           else None)
      | _ \<Rightarrow> None)"

text \<open>The branch of a column with \<open>type === 'integer'\<close>.\<close>

definition integerPredicate :: "host \<Rightarrow> column \<Rightarrow> filterEntry \<Rightarrow> (row \<Rightarrow> bool) option" where
  "integerPredicate h col flt =
     (let rowVal = (\<lambda>r. jsNumber h (getField r (key col)));
          filterVal = fvalNumber h (val flt)
      in if op flt = ''='' \<and> fvalTruthy (val flt) then Some (\<lambda>r. numEq (rowVal r) filterVal)
         else if op flt = ''<'' \<and> fvalTruthy (val flt) then Some (\<lambda>r. numLt (rowVal r) filterVal)
         else if op flt = ''>'' \<and> fvalTruthy (val flt) then Some (\<lambda>r. numGt (rowVal r) filterVal)
         else None)"

text \<open>The branch of a column with \<open>filterType === 'dropdown'\<close>.\<close>

definition dropdownPredicate :: "column \<Rightarrow> filterEntry \<Rightarrow> (row \<Rightarrow> bool) option" where
  "dropdownPredicate col flt =
     (let selected = getDropdownFilterValue (val flt)
      in if length selected > 0
         then Some (\<lambda>r. jsString (getField r (key col)) \<in> set selected)
         else None)"

text \<open>The last branch, "string default: contains".\<close>

definition containsPredicate :: "column \<Rightarrow> filterEntry \<Rightarrow> (row \<Rightarrow> bool) option" where
  "containsPredicate col flt =
     (case val flt of
        FString v \<Rightarrow>
          Some (\<lambda>r. includesStr (toLowerCase (jsString (getField r (key col)))) (toLowerCase v))
      | _ \<Rightarrow> None)"

text \<open>One pass of \<open>columns.forEach\<close>: the early return, then the chain of branches in source order.\<close>

definition columnPredicate :: "host \<Rightarrow> filterState \<Rightarrow> column \<Rightarrow> (row \<Rightarrow> bool) option" where
  "columnPredicate h filters col =
     (case filters (key col) of
        None \<Rightarrow> None
      | Some flt \<Rightarrow>
          if \<not> fvalTruthy (val flt) then None
          else if type col = Some TDate then datePredicate h col flt
          else if type col = Some TInteger then integerPredicate h col flt
          else if filterType col = Some FDropdown then dropdownPredicate col flt
          else containsPredicate col flt)"

definition applyColumnFilter :: "host \<Rightarrow> filterState \<Rightarrow> row list \<Rightarrow> column \<Rightarrow> row list" where
  "applyColumnFilter h filters filtered col =
     (case columnPredicate h filters col of None \<Rightarrow> filtered | Some p \<Rightarrow> filter p filtered)"

text \<open>The callback of the global search: some visible key's stringified value contains the search text.\<close>

definition passesSearch :: "string \<Rightarrow> string list \<Rightarrow> row \<Rightarrow> bool" where
  "passesSearch search visibleCols r =
     list_ex (\<lambda>k. includesStr (toLowerCase (jsString (getField r k))) (toLowerCase search)) visibleCols"

definition filteredData ::
  "host \<Rightarrow> row list \<Rightarrow> string \<Rightarrow> filterState \<Rightarrow> string list \<Rightarrow> column list \<Rightarrow> row list" where
  "filteredData h data search filters visibleCols columns =
     (let filtered = (if trim search \<noteq> [] then filter (passesSearch search visibleCols) data else data)
      in foldl (applyColumnFilter h filters) filtered columns)"

text \<open>
  The filter row of the header resolves the kind of filter input to render:
  \<open>col.filterType || (col.type === 'date' ? 'date' : col.type === 'integer' ? 'integer' : 'search')\<close>.
\<close>

definition resolvedFilterType :: "column \<Rightarrow> filterKind" where
  "resolvedFilterType col =
     (case filterType col of
        Some k \<Rightarrow> k
      | None \<Rightarrow> if type col = Some TDate then FDate
                else if type col = Some TInteger then FInteger else FSearch)"

section \<open>Sort: \<open>sortedData\<close>\<close>

definition compareRows :: "host \<Rightarrow> sortState \<Rightarrow> row \<Rightarrow> row \<Rightarrow> int" where
  "compareRows h s a b =
     (let aValue = getField a (sortKey s); bValue = getField b (sortKey s)
      in if isNullish aValue then 1
         else if isNullish bValue then - 1
         else (case (aValue, bValue) of
                 (Num x, Num y) \<Rightarrow> (if direction s = Asc then x - y else y - x)
               | _ \<Rightarrow>
                   if direction s = Asc
                   then localeCompare h (jsString aValue) (jsString bValue)
                   else localeCompare h (jsString bValue) (jsString aValue)))"

definition sortedData :: "host \<Rightarrow> sortState option \<Rightarrow> row list \<Rightarrow> row list" where
  "sortedData h sortSt filtered =
     (case sortSt of None \<Rightarrow> filtered | Some s \<Rightarrow> sortBy (compareRows h s) filtered)"

text \<open>The same with the engine's sort as a parameter; \<open>sortedData\<close> is its instance at \<open>sortBy\<close>.\<close>

definition sortedDataWith ::
  "((row \<Rightarrow> row \<Rightarrow> int) \<Rightarrow> row list \<Rightarrow> row list) \<Rightarrow> host \<Rightarrow> sortState option \<Rightarrow> row list
     \<Rightarrow> row list" where
  "sortedDataWith srt h sortSt filtered =
     (case sortSt of None \<Rightarrow> filtered | Some s \<Rightarrow> srt (compareRows h s) filtered)"

section \<open>Paginator: \<open>pageCount\<close> and \<open>pagedData\<close>\<close>

text \<open>\<open>Math.ceil(a / b)\<close> on integers, \<open>b\<close> not zero.\<close>

definition ceilDiv :: "int \<Rightarrow> int \<Rightarrow> int" where
  "ceilDiv a b = - ((- a) div b)"

text \<open>
  \<open>Math.max(1, Math.ceil(sortedData.length / rowsPerPage))\<close>. With \<open>rowsPerPage = 0\<close>
  the quotient is Infinity or NaN and so is the page count: \<open>None\<close>.
\<close>

definition pageCount :: "nat \<Rightarrow> int \<Rightarrow> int option" where
  "pageCount len rowsPerPage =
     (if rowsPerPage = 0 then None else Some (max 1 (ceilDiv (int len) rowsPerPage)))"

definition pagedData :: "bool \<Rightarrow> 'a list \<Rightarrow> int \<Rightarrow> int \<Rightarrow> 'a list" where
  "pagedData enablePagination sortedRows page rowsPerPage =
     (if enablePagination
      then slice sortedRows ((page - 1) * rowsPerPage) (page * rowsPerPage)
      else sortedRows)"

section \<open>Sticky columns: \<open>getStickyLeft\<close>\<close>

datatype error = TypeError

text \<open>The width \<open>w\<close> one iteration of the loop adds.\<close>

definition stickyWidth :: "column \<Rightarrow> num" where
  "stickyWidth col =
     (case width col of
        None \<Rightarrow> Some 120
      | Some w \<Rightarrow>
          if w \<noteq> [] \<and> endsWith w ''px'' then parseInt w
          else if w \<noteq> [] \<and> endsWith w ''%'' then Some 120
          else Some 120)"

text \<open>
  The loop \<open>for (let i = 0; i < idx; i++)\<close> from counter \<open>i\<close> with accumulator \<open>left\<close>.
  Past the end of \<open>cols\<close> the element is \<open>undefined\<close> and reading its \<open>width\<close> throws.
\<close>

function stickyLoop :: "column list \<Rightarrow> nat \<Rightarrow> nat \<Rightarrow> num \<Rightarrow> error + num" where
  "stickyLoop cols idx i left =
     (if i < idx then
        (if i < length cols then stickyLoop cols idx (Suc i) (numAdd left (stickyWidth (cols ! i)))
         else Inl TypeError)
      else Inr left)"
  by pat_completeness auto
termination
  by (relation "measure (\<lambda>(cols, idx, i, left). idx - i)") auto

declare stickyLoop.simps [simp del]

definition getStickyLeft :: "column list \<Rightarrow> nat \<Rightarrow> error + num" where
  "getStickyLeft cols idx = stickyLoop cols idx 0 (Some 0)"

section \<open>Multi-select dropdown: the popover handlers\<close>

text \<open>
  The component state \<open>open\<close> and its props \<open>value\<close> (the selected options) and
  \<open>options\<close>. \<open>MultiSelectDropdown\<close> is declared in the body of \<open>Table\<close>; its only
  use, in the filter row, passes \<open>value = getDropdownFilterValue(filters[key]?.value)\<close> and
  \<open>onChange = (selected) => setFilters(prev => ({...prev, [key]: {op: 'in', value: selected}}))\<close>.
\<close>

record popover =
  isOpen :: bool
  selected :: "string list"
  options :: "string list"

text \<open>
  A \<open>mousedown\<close> event as the listener sees it: whether the trigger (\<open>btnRef\<close>) contains
  the target, and whether the menu (\<open>menuRef\<close>) does; an unset ref contains nothing.
\<close>

record mouseEvent =
  inTrigger :: bool
  inMenu :: bool

definition allSelected :: "popover \<Rightarrow> bool" where
  "allSelected p = (length (selected p) = length (options p) \<and> length (options p) > 0)"

text \<open>
  A state update of \<open>Table\<close> renders \<open>Table\<close> again, and the render declares
  \<open>function MultiSelectDropdown\<close> anew. The element in the filter row then has another
  component type than before, so React unmounts the instance and mounts a fresh one, whose
  state starts again from \<open>useState(false)\<close>: the popover is closed.
\<close>

definition remount :: "popover \<Rightarrow> popover" where
  "remount p = p\<lparr>isOpen := False\<rparr>"

text \<open>
  \<open>onChange\<close>: \<open>setFilters\<close> stores the selection and updates the state of \<open>Table\<close>;
  the fresh instance reads the stored array back as its \<open>value\<close>.
\<close>

definition onChange :: "string list \<Rightarrow> popover \<Rightarrow> popover" where
  "onChange sel p = remount (p\<lparr>selected := getDropdownFilterValue (FArray sel)\<rparr>)"

definition handleSelect :: "string \<Rightarrow> popover \<Rightarrow> popover" where
  "handleSelect option p =
     (if option \<in> set (selected p)
      then onChange (filter (\<lambda>v. v \<noteq> option) (selected p)) p
      else onChange (selected p @ [option]) p)"

definition handleSelectAll :: "popover \<Rightarrow> popover" where
  "handleSelectAll p = (if allSelected p then onChange [] p else onChange (options p) p)"

text \<open>
  The two document listeners exist only while the popover is open. They and the trigger
  call \<open>setOpen\<close>, a state update of the dropdown itself, which does not render \<open>Table\<close>.
\<close>

definition handle :: "mouseEvent \<Rightarrow> popover \<Rightarrow> popover" where
  "handle e p =
     (if \<not> isOpen p then p
      else if inTrigger e \<or> inMenu e then p
      else p\<lparr>isOpen := False\<rparr>)"

definition handleKey :: "string \<Rightarrow> popover \<Rightarrow> popover" where
  "handleKey k p =
     (if \<not> isOpen p then p
      else if k = ''Escape'' then p\<lparr>isOpen := False\<rparr> else p)"

text \<open>The trigger's \<open>onClick\<close>.\<close>

definition toggleOpen :: "popover \<Rightarrow> popover" where
  "toggleOpen p = p\<lparr>isOpen := \<not> isOpen p\<rparr>"

section \<open>Notions used in the statements\<close>

text \<open>
  A row passes a column when the column assigns no filter or its predicate holds of the row.
\<close>

definition passesColumn :: "host \<Rightarrow> filterState \<Rightarrow> column \<Rightarrow> row \<Rightarrow> bool" where
  "passesColumn h filters col r =
     (case columnPredicate h filters col of None \<Rightarrow> True | Some p \<Rightarrow> p r)"

text \<open>
  A comparator is a consistent order on a set when, there, an element compares equal to
  itself, \<open>a < b\<close> exactly when \<open>b > a\<close>, and \<open>\<le>\<close> is transitive.
\<close>

definition consistentOn :: "('a \<Rightarrow> 'a \<Rightarrow> int) \<Rightarrow> 'a set \<Rightarrow> bool" where
  "consistentOn cmp S =
     ((\<forall>a\<in>S. cmp a a = 0)
      \<and> (\<forall>a\<in>S. \<forall>b\<in>S. (cmp a b < 0) = (cmp b a > 0))
      \<and> (\<forall>a\<in>S. \<forall>b\<in>S. \<forall>c\<in>S. cmp a b \<le> 0 \<and> cmp b c \<le> 0 \<longrightarrow> cmp a c \<le> 0))"

text \<open>
  What ECMAScript 2019 promises of an engine's sort about order among equals: on a
  comparator that is a consistent order on the elements, the elements that compare equal to
  a given one come out in the order they went in.
\<close>

definition stableOnConsistent :: "(('a \<Rightarrow> 'a \<Rightarrow> int) \<Rightarrow> 'a list \<Rightarrow> 'a list) \<Rightarrow> bool" where
  "stableOnConsistent srt =
     (\<forall>cmp xs. consistentOn cmp (set xs) \<longrightarrow>
        (\<forall>a\<in>set xs. filter (\<lambda>b. cmp a b = 0) (srt cmp xs) = filter (\<lambda>b. cmp a b = 0) xs))"

text \<open>The rows with a non-null field at \<open>k\<close> come first, those with a null or absent one last.\<close>

definition nullsLast :: "string \<Rightarrow> row list \<Rightarrow> bool" where
  "nullsLast k rs = (\<exists>front rear. rs = front @ rear
       \<and> (\<forall>r\<in>set front. \<not> isNullish (getField r k))
       \<and> (\<forall>r\<in>set rear. isNullish (getField r k)))"

subsection \<open>Sample data\<close>

text \<open>A column declaration with only its key and header set.\<close>

definition col0 :: "string \<Rightarrow> column" where
  "col0 k = \<lparr> key = k, header = k, width = None, wrap = None, filterable = None, type = None,
             renderHTML = None, sticky = None, filterType = None, filterOptions = None \<rparr>"

definition sampleRows :: "row list" where
  "sampleRows =
     [[(''id'', Num 1), (''name'', Str ''b''), (''age'', Null)],
      [(''id'', Num 2), (''name'', Str ''a''), (''age'', Num 30)],
      [(''id'', Num 3), (''name'', Str ''b''), (''age'', Num 25)],
      [(''id'', Num 4), (''age'', Num 41)]]"



section \<open>Properties of the paginator\<close>

lemma ceilDiv_ceiling: "ceilDiv a b = \<lceil>real_of_int a / real_of_int b\<rceil>"
  unfolding ceilDiv_def by (simp add: ceiling_divide_eq_div)

lemma ceilDiv_mult_ge:
  assumes "0 < b"
  shows "a \<le> ceilDiv a b * b"
proof -
  have "(- a) div b * b + (- a) mod b = - a" by simp
  moreover have "0 \<le> (- a) mod b" using assms by simp
  ultimately have "(- a) div b * b \<le> - a" by linarith
  then show ?thesis by (simp add: ceilDiv_def)
qed

lemma slice_nat: "slice xs (int s) (int s + int n) = take n (drop s xs)"
proof (cases "length xs \<le> s")
  case True
  then show ?thesis by (simp add: slice_def Let_def)
next
  case False
  then have "nat (min (int s + int n) (int (length xs)) - int s) = min n (length xs - s)"
    by (simp add: min_def) linarith
  moreover have "take (min n (length xs - s)) (drop s xs) = take n (drop s xs)"
    by (simp add: min_def)
  ultimately show ?thesis using False by (simp add: slice_def Let_def min_def)
qed

lemma slice_page:
  assumes "0 < ps" and "1 \<le> p"
  shows "slice xs ((p - 1) * ps) (p * ps) = take (nat ps) (drop (nat ((p - 1) * ps)) xs)"
proof -
  have s0: "0 \<le> (p - 1) * ps" using assms by simp
  have "p * ps = int (nat ((p - 1) * ps)) + int (nat ps)"
    using assms s0 by (simp add: algebra_simps)
  moreover have "(p - 1) * ps = int (nat ((p - 1) * ps))" using s0 by simp
  ultimately show ?thesis using slice_nat [of xs "nat ((p - 1) * ps)" "nat ps"] by simp
qed

lemma concat_chunks:
  "concat (map (\<lambda>i. take n (drop (i * n) xs)) [0..<k]) = take (k * n) xs"
proof (induction k)
  case 0
  then show ?case by simp
next
  case (Suc k)
  have "take (Suc k * n) xs = take (k * n) xs @ take n (drop (k * n) xs)"
    using take_add [of "k * n" n xs] by (simp add: add.commute)
  with Suc show ?case by simp
qed

text \<open>
  Claim C5. For a positive page size, the page count is \<open>max(1, ceil(len / pageSize))\<close>;
  page \<open>p\<close> is the slice of the rows from index \<open>(p - 1) * pageSize\<close> of length at most
  \<open>pageSize\<close>; the pages \<open>1..pageCount\<close> concatenated are exactly the rows; and a page
  number beyond the page count gives the empty page.
\<close>

theorem paginator_pages:
  assumes "0 < ps"
  shows "\<exists>pc. pageCount (length R) ps = Some pc
     \<and> pc = max 1 \<lceil>real (length R) / real_of_int ps\<rceil>
     \<and> (\<forall>p\<ge>1. pagedData True R p ps = take (nat ps) (drop (nat ((p - 1) * ps)) R))
     \<and> concat (map (\<lambda>p. pagedData True R (int p) ps) [1..<Suc (nat pc)]) = R
     \<and> (\<forall>p>pc. pagedData True R p ps = [])"
proof -
  define pc where "pc = max 1 (ceilDiv (int (length R)) ps)"
  have pc1: "1 \<le> pc" by (simp add: pc_def)
  have cover: "int (length R) \<le> pc * ps"
  proof -
    have "int (length R) \<le> ceilDiv (int (length R)) ps * ps"
      using assms by (rule ceilDiv_mult_ge)
    also have "\<dots> \<le> pc * ps" using assms by (simp add: pc_def)
    finally show ?thesis .
  qed
  have cnt: "pageCount (length R) ps = Some pc"
    using assms by (simp add: pageCount_def pc_def)
  have ceil: "pc = max 1 \<lceil>real (length R) / real_of_int ps\<rceil>"
    using ceilDiv_ceiling [of "int (length R)" ps] by (simp add: pc_def)
  have page: "pagedData True R p ps = take (nat ps) (drop (nat ((p - 1) * ps)) R)"
    if "1 \<le> p" for p
    using slice_page [OF assms that] by (simp add: pagedData_def)
  have all: "concat (map (\<lambda>p. pagedData True R (int p) ps) [1..<Suc (nat pc)]) = R"
  proof -
    have idx: "nat ((int (Suc i) - 1) * ps) = i * nat ps" for i
      using assms by (simp add: nat_mult_distrib)
    have "map (\<lambda>p. pagedData True R (int p) ps) [1..<Suc (nat pc)]
        = map (\<lambda>i. pagedData True R (int (Suc i)) ps) [0..<nat pc]"
    proof -
      have "[1..<Suc (nat pc)] = map Suc [0..<nat pc]"
        by (simp only: map_Suc_upt One_nat_def)
      then show ?thesis by (simp only: map_map comp_def)
    qed
    also have "\<dots> = map (\<lambda>i. take (nat ps) (drop (i * nat ps) R)) [0..<nat pc]"
    proof (rule map_cong [OF refl])
      fix i
      have "pagedData True R (int (Suc i)) ps
          = take (nat ps) (drop (nat ((int (Suc i) - 1) * ps)) R)"
        by (rule page) simp
      then show "pagedData True R (int (Suc i)) ps = take (nat ps) (drop (i * nat ps) R)"
        by (simp only: idx)
    qed
    finally have "concat (map (\<lambda>p. pagedData True R (int p) ps) [1..<Suc (nat pc)])
        = take (nat pc * nat ps) R"
      by (simp only: concat_chunks)
    moreover have "length R \<le> nat pc * nat ps"
    proof -
      have "nat pc * nat ps = nat (pc * ps)" using pc1 by (simp add: nat_mult_distrib)
      then show ?thesis using cover by linarith
    qed
    ultimately show ?thesis by simp
  qed
  have beyond: "pagedData True R p ps = []" if "pc < p" for p
  proof -
    have "1 \<le> p" using that pc1 by simp
    moreover have "pc * ps \<le> (p - 1) * ps" using that assms by simp
    then have "length R \<le> nat ((p - 1) * ps)" using cover by linarith
    ultimately show ?thesis by (simp add: page)
  qed
  show ?thesis using cnt ceil page all beyond by blast
qed

theorem paginator_pages_witness:
  "(0::int) < 2 \<and> (1::int) \<le> 2 \<and> (3::int) < 4
   \<and> pageCount (length [10, 20, 30, 40, 50 :: nat]) 2 = Some 3
   \<and> pagedData True [10, 20, 30, 40, 50 :: nat] 2 2 = [30, 40]
   \<and> pagedData True [10, 20, 30, 40, 50 :: nat] 3 2 = [50]
   \<and> pagedData True [10, 20, 30, 40, 50 :: nat] 4 2 = []"
  using paginator_pages [of 2 "[10, 20, 30, 40, 50 :: nat]"]
  by (simp add: pageCount_def ceilDiv_def pagedData_def slice_def)

section \<open>Properties of the filter engine\<close>

lemma startsWith_iff: "startsWith s n \<longleftrightarrow> (\<exists>t. s = n @ t)"
  by (induction s n rule: startsWith.induct) auto

lemma includesStr_iff: "includesStr hay needle \<longleftrightarrow> (\<exists>p s. hay = p @ needle @ s)"
proof (induction hay)
  case Nil
  then show ?case by simp
next
  case (Cons c cs)
  show ?case
  proof
    assume "includesStr (c # cs) needle"
    then consider "startsWith (c # cs) needle" | "includesStr cs needle" by auto
    then show "\<exists>p s. c # cs = p @ needle @ s"
    proof cases
      case 1
      then obtain t where "c # cs = needle @ t" by (auto simp add: startsWith_iff)
      then have "c # cs = [] @ needle @ t" by simp
      then show ?thesis by blast
    next
      case 2
      then obtain p s where "cs = p @ needle @ s" using Cons.IH by blast
      then have "c # cs = (c # p) @ needle @ s" by simp
      then show ?thesis by blast
    qed
  next
    assume "\<exists>p s. c # cs = p @ needle @ s"
    then obtain p s where ps: "c # cs = p @ needle @ s" by blast
    show "includesStr (c # cs) needle"
    proof (cases p)
      case Nil
      then have "startsWith (c # cs) needle" using ps by (auto simp add: startsWith_iff)
      then show ?thesis by simp
    next
      case (Cons a p')
      then have "cs = p' @ needle @ s" using ps by simp
      then have "includesStr cs needle" using Cons.IH by blast
      then show ?thesis by simp
    qed
  qed
qed

lemma applyColumnFilter_filter:
  "applyColumnFilter h filters xs col = filter (passesColumn h filters col) xs"
proof (cases "columnPredicate h filters col")
  case None
  then show ?thesis by (simp add: applyColumnFilter_def passesColumn_def)
next
  case (Some p)
  then have "filter p xs = filter (passesColumn h filters col) xs"
    by (intro filter_cong refl) (simp add: passesColumn_def)
  with Some show ?thesis by (simp add: applyColumnFilter_def)
qed

lemma foldl_applyColumnFilter:
  "foldl (applyColumnFilter h filters) xs cols
     = filter (\<lambda>r. list_all (\<lambda>c. passesColumn h filters c r) cols) xs"
proof (induction cols arbitrary: xs)
  case Nil
  then show ?case by simp
next
  case (Cons c cols)
  have "foldl (applyColumnFilter h filters) xs (c # cols)
      = foldl (applyColumnFilter h filters) (applyColumnFilter h filters xs c) cols"
    by simp
  also have "\<dots> = filter (\<lambda>r. list_all (\<lambda>c. passesColumn h filters c r) cols)
      (applyColumnFilter h filters xs c)"
    by (rule Cons.IH)
  also have "\<dots> = filter (\<lambda>r. list_all (\<lambda>c. passesColumn h filters c r) (c # cols)) xs"
    by (simp add: applyColumnFilter_filter conj_commute)
  finally show ?case .
qed

lemma passesSearch_iff:
  "passesSearch search vis r \<longleftrightarrow>
     (\<exists>k\<in>set vis. \<exists>p s. toLowerCase (jsString (getField r k)) = p @ toLowerCase search @ s)"
  by (simp add: passesSearch_def list_ex_iff includesStr_iff)

lemma columnPredicate_empty [simp]: "columnPredicate h Map.empty col = None"
  by (simp add: columnPredicate_def)

lemma filteredData_no_filters:
  "filteredData h data search Map.empty vis cols
     = (if trim search \<noteq> [] then filter (passesSearch search vis) data else data)"
  by (simp add: filteredData_def foldl_applyColumnFilter passesColumn_def list_all_iff)

lemma ev_lower1: "toLowerCase ''Alice'' = ''alice''"
  by (simp add: toLowerCase_def toLowerChar_def lowerTable_def)

lemma ev_trim1: "trim ''alice '' = ''alice''"
  by (simp add: trim_def isSpace_def)

lemma rowDate_undefined: "getField r (key col) = Undefined \<Longrightarrow> rowDate h col r = None"
  by (simp add: rowDate_def truthy_def)

lemma datePredicate_undefined:
  assumes "getField r (key col) = Undefined" and "datePredicate h col flt = Some p"
  shows "\<not> p r"
  using assms(2) rowDate_undefined [OF assms(1), of h]
  by (auto simp add: datePredicate_def split: fval.splits if_splits option.splits)

lemma num_NaN [simp]:
  "numEq None b = False" "numLt None b = False" "numLt a None = False"
  "numLe None b = False" "numLe a None = False"
  by (simp_all add: numEq_def numLt_def numLe_def split: option.splits)

lemma integerPredicate_undefined:
  assumes "getField r (key col) = Undefined" and "integerPredicate h col flt = Some p"
  shows "\<not> p r"
proof -
  have nan: "jsNumber h (getField r (key col)) = None"
    using assms(1) by (simp add: jsNumber_def)
  from assms(2) consider "p = (\<lambda>r. numEq (jsNumber h (getField r (key col))) (fvalNumber h (val flt)))"
    | "p = (\<lambda>r. numLt (jsNumber h (getField r (key col))) (fvalNumber h (val flt)))"
    | "p = (\<lambda>r. numGt (jsNumber h (getField r (key col))) (fvalNumber h (val flt)))"
    by (auto simp add: integerPredicate_def Let_def split: if_splits)
  then show ?thesis by cases (simp_all add: nan numGt_def)
qed

lemma filteredData_subset:
  "r \<in> set (filteredData h data search filters vis cols) \<Longrightarrow> c \<in> set cols
     \<Longrightarrow> passesColumn h filters c r"
  by (auto simp add: filteredData_def foldl_applyColumnFilter list_all_iff Let_def split: if_splits)

lemma applyColumnFilter_entry:
  "applyColumnFilter h (filters(key col \<mapsto> flt)) rows col =
     (if \<not> fvalTruthy (val flt) then rows
      else if type col = Some TDate then
        (case datePredicate h col flt of None \<Rightarrow> rows | Some p \<Rightarrow> filter p rows)
      else if type col = Some TInteger then
        (case integerPredicate h col flt of None \<Rightarrow> rows | Some p \<Rightarrow> filter p rows)
      else if filterType col = Some FDropdown then
        (case dropdownPredicate col flt of None \<Rightarrow> rows | Some p \<Rightarrow> filter p rows)
      else (case containsPredicate col flt of None \<Rightarrow> rows | Some p \<Rightarrow> filter p rows))"
  by (simp add: applyColumnFilter_def columnPredicate_def)

lemma numLe_iff: "numLe a b \<longleftrightarrow> (\<exists>x y. a = Some x \<and> b = Some y \<and> x \<le> y)"
  by (auto simp add: numLe_def split: option.splits)

lemma numLt_iff: "numLt a b \<longleftrightarrow> (\<exists>x y. a = Some x \<and> b = Some y \<and> x < y)"
  by (auto simp add: numLt_def split: option.splits)

subsection \<open>Global search\<close>

text \<open>
  Claim C2, as the code has it. The search text is trimmed only to decide whether a search is
  active. When it is, a row passes iff some visible key's stringified value, lower-cased,
  contains the lower-cased search text as typed, surrounding whitespace included; with no
  column filter set the result is exactly the rows that pass, and with column filters it is
  among them. A text that is blank after trimming filters nothing.
\<close>

theorem global_search_untrimmed:
  assumes "trim search \<noteq> []" and "trim blank = []"
  shows "(passesSearch search vis r \<longleftrightarrow>
      (\<exists>k\<in>set vis. \<exists>p s. toLowerCase (jsString (getField r k)) = p @ toLowerCase search @ s))
   \<and> filteredData h data search Map.empty vis cols = filter (passesSearch search vis) data
   \<and> set (filteredData h data search filters vis cols) \<subseteq> {r. passesSearch search vis r}
   \<and> filteredData h data blank Map.empty vis cols = data"
  using assms
  by (auto simp add: passesSearch_iff filteredData_no_filters filteredData_def foldl_applyColumnFilter)

lemma ev_lower2: "toLowerCase ''Ice '' = ''ice ''" "toLowerCase ''Bob'' = ''bob''"
  "toLowerCase ''Alice Smith'' = ''alice smith''"
  by (simp_all add: toLowerCase_def toLowerChar_def lowerTable_def)

theorem global_search_untrimmed_witness:
  "trim ''Ice '' \<noteq> [] \<and> trim ''  '' = []
   \<and> filteredData isoHost [[(''name'', Str ''Alice Smith'')], [(''name'', Str ''Alice'')], [(''name'', Str ''Bob'')]]
        ''Ice '' Map.empty [''name''] [col0 ''name'']
       = [[(''name'', Str ''Alice Smith'')]]
   \<and> filteredData isoHost [[(''name'', Str ''Alice Smith'')], [(''name'', Str ''Alice'')], [(''name'', Str ''Bob'')]]
        ''  '' Map.empty [''name''] [col0 ''name'']
       = [[(''name'', Str ''Alice Smith'')], [(''name'', Str ''Alice'')], [(''name'', Str ''Bob'')]]"
proof -
  have a: "trim ''Ice '' \<noteq> []" and b: "trim ''  '' = []" by (simp_all add: trim_def isSpace_def)
  note t = global_search_untrimmed [OF a b, where h = isoHost and vis = "[''name'']"
      and cols = "[col0 ''name'']"
      and data = "[[(''name'', Str ''Alice Smith'')], [(''name'', Str ''Alice'')], [(''name'', Str ''Bob'')]]"]
  from t a b show ?thesis
    by (simp add: passesSearch_def getField_def jsString_def ev_lower1 ev_lower2)
qed

text \<open>
  Claim C2 as stated fails: the search text \<open>"alice "\<close> is not empty, the name
  \<open>"Alice"\<close> lower-cased contains the trimmed text \<open>"alice"\<close>, and the row is
  filtered out, because the match uses the text with its trailing space.
\<close>

theorem global_search_trimmed_counterexample:
  "trim ''alice '' \<noteq> []
   \<and> includesStr (toLowerCase (jsString (getField [(''name'', Str ''Alice'')] ''name'')))
        (toLowerCase (trim ''alice ''))
   \<and> filteredData isoHost [[(''name'', Str ''Alice'')]] ''alice '' Map.empty [''name'']
        [col0 ''name''] = []"
  by (simp add: filteredData_no_filters passesSearch_def getField_def jsString_def ev_lower1 ev_trim1)
     (simp add: toLowerCase_def toLowerChar_def lowerTable_def)

subsection \<open>Rows with a missing field\<close>

text \<open>
  Claim C3, as the code has it. For a row whose field at the column is \<open>undefined\<close>:
  an active date clause and an active integer clause are false, and a column of type date or
  integer with an active clause excludes the row from the filtered result; a dropdown clause
  and a text clause test the string \<open>"undefined"\<close>, so the row passes the first iff
  \<open>"undefined"\<close> is selected and the second iff \<open>"undefined"\<close> contains the
  lower-cased filter text.
\<close>

theorem undefined_field_clauses:
  assumes "getField r (key col) = Undefined"
    and "datePredicate h col fd \<noteq> None"
    and "integerPredicate h col fi \<noteq> None"
    and "dropdownPredicate col fs \<noteq> None"
    and "containsPredicate col ft \<noteq> None"
    and "c \<in> set cols" and "getField r (key c) = Undefined"
    and "type c = Some TDate \<or> type c = Some TInteger"
    and "columnPredicate h filters c \<noteq> None"
  shows "map_option (\<lambda>p. p r) (datePredicate h col fd) = Some False
     \<and> map_option (\<lambda>p. p r) (integerPredicate h col fi) = Some False
     \<and> map_option (\<lambda>p. p r) (dropdownPredicate col fs)
         = Some (''undefined'' \<in> set (getDropdownFilterValue (val fs)))
     \<and> (\<exists>v. val ft = FString v
          \<and> map_option (\<lambda>p. p r) (containsPredicate col ft)
              = Some (includesStr ''undefined'' (toLowerCase v)))
     \<and> r \<notin> set (filteredData h data search filters vis cols)"
proof -
  from assms(2) obtain pd where pd: "datePredicate h col fd = Some pd" by blast
  from assms(3) obtain pn where pn: "integerPredicate h col fi = Some pn" by blast
  have d: "map_option (\<lambda>p. p r) (datePredicate h col fd) = Some False"
    using datePredicate_undefined [OF assms(1) pd] pd by simp
  have i: "map_option (\<lambda>p. p r) (integerPredicate h col fi) = Some False"
    using integerPredicate_undefined [OF assms(1) pn] pn by simp
  have s: "map_option (\<lambda>p. p r) (dropdownPredicate col fs)
         = Some (''undefined'' \<in> set (getDropdownFilterValue (val fs)))"
    using assms(1,4) by (auto simp add: dropdownPredicate_def Let_def jsString_def split: if_splits)
  have t: "\<exists>v. val ft = FString v
          \<and> map_option (\<lambda>p. p r) (containsPredicate col ft)
              = Some (includesStr ''undefined'' (toLowerCase v))"
    using assms(1,5)
    by (auto simp add: containsPredicate_def jsString_def toLowerCase_def toLowerChar_def
        lowerTable_def split: fval.splits)
  have x: "r \<notin> set (filteredData h data search filters vis cols)"
  proof
    assume "r \<in> set (filteredData h data search filters vis cols)"
    then have pass: "passesColumn h filters c r" using assms(6) by (rule filteredData_subset)
    from assms(9) obtain p where p: "columnPredicate h filters c = Some p" by blast
    then obtain flt where flt: "filters (key c) = Some flt"
      by (auto simp add: columnPredicate_def split: option.splits)
    from p flt assms(8) have "datePredicate h c flt = Some p \<or> integerPredicate h c flt = Some p"
      by (auto simp add: columnPredicate_def split: if_splits)
    then have "\<not> p r"
      using datePredicate_undefined [OF assms(7)] integerPredicate_undefined [OF assms(7)] by blast
    then show False using pass p by (simp add: passesColumn_def)
  qed
  from d i s t x show ?thesis by blast
qed

theorem undefined_field_clauses_witness:
  "getField [(''id'', Num 1)] (key (col0 ''name'')) = Undefined
   \<and> datePredicate isoHost (col0 ''name'') \<lparr>op = ''before'', val = FString ''2020-01-01'', value2 = None\<rparr> \<noteq> None
   \<and> integerPredicate isoHost (col0 ''name'') \<lparr>op = ''>'', val = FString ''30'', value2 = None\<rparr> \<noteq> None
   \<and> dropdownPredicate (col0 ''name'') \<lparr>op = ''in'', val = FArray [''Admin''], value2 = None\<rparr> \<noteq> None
   \<and> containsPredicate (col0 ''name'') \<lparr>op = ''contains'', val = FString ''ali'', value2 = None\<rparr> \<noteq> None
   \<and> (col0 ''age'')\<lparr>type := Some TInteger\<rparr> \<in> set [(col0 ''age'')\<lparr>type := Some TInteger\<rparr>]
   \<and> getField [(''id'', Num 1)] (key ((col0 ''age'')\<lparr>type := Some TInteger\<rparr>)) = Undefined
   \<and> (type ((col0 ''age'')\<lparr>type := Some TInteger\<rparr>) = Some TDate
        \<or> type ((col0 ''age'')\<lparr>type := Some TInteger\<rparr>) = Some TInteger)
   \<and> columnPredicate isoHost [''age'' \<mapsto> \<lparr>op = ''>'', val = FString ''30'', value2 = None\<rparr>]
        ((col0 ''age'')\<lparr>type := Some TInteger\<rparr>) \<noteq> None
   \<and> map_option (\<lambda>p. p [(''id'', Num 1)])
        (datePredicate isoHost (col0 ''name'') \<lparr>op = ''before'', val = FString ''2020-01-01'', value2 = None\<rparr>)
       = Some False
   \<and> [(''id'', Num 1)] \<notin> set (filteredData isoHost [[(''id'', Num 1)], [(''age'', Num 35)]] []
        [''age'' \<mapsto> \<lparr>op = ''>'', val = FString ''30'', value2 = None\<rparr>] [''id'', ''age'']
        [(col0 ''age'')\<lparr>type := Some TInteger\<rparr>])"
proof -
  have h1: "getField [(''id'', Num 1)] (key (col0 ''name'')) = Undefined"
    by (simp add: getField_def col0_def)
  have h2: "datePredicate isoHost (col0 ''name'') \<lparr>op = ''before'', val = FString ''2020-01-01'', value2 = None\<rparr> \<noteq> None"
    by (simp add: datePredicate_def)
  have h3: "integerPredicate isoHost (col0 ''name'') \<lparr>op = ''>'', val = FString ''30'', value2 = None\<rparr> \<noteq> None"
    by (simp add: integerPredicate_def fvalTruthy_def)
  have h4: "dropdownPredicate (col0 ''name'') \<lparr>op = ''in'', val = FArray [''Admin''], value2 = None\<rparr> \<noteq> None"
    by (simp add: dropdownPredicate_def getDropdownFilterValue_def fvalTruthy_def)
  have h5: "containsPredicate (col0 ''name'') \<lparr>op = ''contains'', val = FString ''ali'', value2 = None\<rparr> \<noteq> None"
    by (simp add: containsPredicate_def)
  have h6: "(col0 ''age'')\<lparr>type := Some TInteger\<rparr> \<in> set [(col0 ''age'')\<lparr>type := Some TInteger\<rparr>]"
    by simp
  have h7: "getField [(''id'', Num 1)] (key ((col0 ''age'')\<lparr>type := Some TInteger\<rparr>)) = Undefined"
    by (simp add: getField_def col0_def)
  have h8: "type ((col0 ''age'')\<lparr>type := Some TInteger\<rparr>) = Some TDate
        \<or> type ((col0 ''age'')\<lparr>type := Some TInteger\<rparr>) = Some TInteger"
    by simp
  have h9: "columnPredicate isoHost [''age'' \<mapsto> \<lparr>op = ''>'', val = FString ''30'', value2 = None\<rparr>]
        ((col0 ''age'')\<lparr>type := Some TInteger\<rparr>) \<noteq> None"
    by (simp add: columnPredicate_def col0_def integerPredicate_def fvalTruthy_def)
  from undefined_field_clauses [OF h1 h2 h3 h4 h5 h6 h7 h8 h9] h1 h2 h3 h4 h5 h6 h7 h8 h9
  show ?thesis by blast
qed

text \<open>
  Claim C3 as stated fails: a row with no \<open>name\<close> field survives the active text
  filter \<open>"def"\<close> on \<open>name\<close>, and survives the active dropdown filter whose
  selected set is \<open>{"undefined"}\<close>.
\<close>

theorem undefined_field_counterexample:
  "getField [(''id'', Num 1)] ''name'' = Undefined
   \<and> columnPredicate isoHost [''name'' \<mapsto> \<lparr>op = ''contains'', val = FString ''def'', value2 = None\<rparr>]
        (col0 ''name'') \<noteq> None
   \<and> filteredData isoHost [[(''id'', Num 1)]] [] 
        [''name'' \<mapsto> \<lparr>op = ''contains'', val = FString ''def'', value2 = None\<rparr>]
        [''id'', ''name''] [col0 ''name''] = [[(''id'', Num 1)]]
   \<and> columnPredicate isoHost [''name'' \<mapsto> \<lparr>op = ''in'', val = FArray [''undefined''], value2 = None\<rparr>]
        ((col0 ''name'')\<lparr>filterType := Some FDropdown\<rparr>) \<noteq> None
   \<and> filteredData isoHost [[(''id'', Num 1)]] [] 
        [''name'' \<mapsto> \<lparr>op = ''in'', val = FArray [''undefined''], value2 = None\<rparr>]
        [''id'', ''name''] [(col0 ''name'')\<lparr>filterType := Some FDropdown\<rparr>] = [[(''id'', Num 1)]]"
  by (simp add: filteredData_def trim_def applyColumnFilter_def columnPredicate_def col0_def
      fvalTruthy_def containsPredicate_def dropdownPredicate_def getDropdownFilterValue_def
      getField_def jsString_def toLowerCase_def toLowerChar_def lowerTable_def)

subsection \<open>Date filters\<close>

text \<open>
  Claim C4, as the code has it. On a column whose declared type is date: \<open>range\<close> with
  both bounds set keeps the rows whose field is truthy and whose date \<open>d\<close> satisfies
  \<open>value \<le> d \<le> value2\<close>, \<open>before\<close> those with a truthy field and \<open>d < value\<close>,
  \<open>after\<close> those with a truthy field and \<open>d > value\<close>; and with a bound missing (no
  or empty \<open>value2\<close> for a range, no or empty \<open>value\<close>) every row is kept.
\<close>

theorem date_filter_clauses:
  assumes "type col = Some TDate" and "v \<noteq> []" and "v2 \<noteq> []"
  shows "applyColumnFilter h (filters(key col \<mapsto> \<lparr>op = ''range'', val = FString v, value2 = Some v2\<rparr>)) rows col
       = filter (\<lambda>r. \<exists>d lo hi. truthy (getField r (key col)) \<and> newDate h (getField r (key col)) = Some d
                    \<and> newDate h (Str v) = Some lo
                    \<and> newDate h (Str v2) = Some hi \<and> lo \<le> d \<and> d \<le> hi) rows
     \<and> applyColumnFilter h (filters(key col \<mapsto> \<lparr>op = ''before'', val = FString v, value2 = w\<rparr>)) rows col
       = filter (\<lambda>r. \<exists>d b. truthy (getField r (key col)) \<and> newDate h (getField r (key col)) = Some d
                    \<and> newDate h (Str v) = Some b \<and> d < b) rows
     \<and> applyColumnFilter h (filters(key col \<mapsto> \<lparr>op = ''after'', val = FString v, value2 = w\<rparr>)) rows col
       = filter (\<lambda>r. \<exists>d b. truthy (getField r (key col)) \<and> newDate h (getField r (key col)) = Some d
                    \<and> newDate h (Str v) = Some b \<and> d > b) rows
     \<and> applyColumnFilter h (filters(key col \<mapsto> \<lparr>op = ''range'', val = FString v, value2 = None\<rparr>)) rows col = rows
     \<and> applyColumnFilter h (filters(key col \<mapsto> \<lparr>op = ''range'', val = FString v, value2 = Some []\<rparr>)) rows col = rows
     \<and> applyColumnFilter h (filters(key col \<mapsto> \<lparr>op = ''range'', val = FString [], value2 = Some v2\<rparr>)) rows col = rows
     \<and> applyColumnFilter h (filters(key col \<mapsto> \<lparr>op = ''range'', val = FUndefined, value2 = Some v2\<rparr>)) rows col = rows
     \<and> applyColumnFilter h (filters(key col \<mapsto> \<lparr>op = ''before'', val = FString [], value2 = w\<rparr>)) rows col = rows
     \<and> applyColumnFilter h (filters(key col \<mapsto> \<lparr>op = ''after'', val = FString [], value2 = w\<rparr>)) rows col = rows"
proof -
  have range: "applyColumnFilter h (filters(key col \<mapsto> \<lparr>op = ''range'', val = FString v, value2 = Some v2\<rparr>)) rows col
       = filter (\<lambda>r. \<exists>d lo hi. truthy (getField r (key col)) \<and> newDate h (getField r (key col)) = Some d
                    \<and> newDate h (Str v) = Some lo
                    \<and> newDate h (Str v2) = Some hi \<and> lo \<le> d \<and> d \<le> hi) rows"
    using assms
    by (simp add: applyColumnFilter_entry fvalTruthy_def datePredicate_def)
       (rule filter_cong, auto simp add: rowDate_def numGe_def numLe_iff split: option.splits)
  have before: "applyColumnFilter h (filters(key col \<mapsto> \<lparr>op = ''before'', val = FString v, value2 = w\<rparr>)) rows col
       = filter (\<lambda>r. \<exists>d b. truthy (getField r (key col)) \<and> newDate h (getField r (key col)) = Some d
                    \<and> newDate h (Str v) = Some b \<and> d < b) rows"
    using assms
    by (simp add: applyColumnFilter_entry fvalTruthy_def datePredicate_def)
       (rule filter_cong, auto simp add: rowDate_def numLt_iff split: option.splits)
  have after: "applyColumnFilter h (filters(key col \<mapsto> \<lparr>op = ''after'', val = FString v, value2 = w\<rparr>)) rows col
       = filter (\<lambda>r. \<exists>d b. truthy (getField r (key col)) \<and> newDate h (getField r (key col)) = Some d
                    \<and> newDate h (Str v) = Some b \<and> d > b) rows"
    using assms
    by (simp add: applyColumnFilter_entry fvalTruthy_def datePredicate_def)
       (rule filter_cong, auto simp add: rowDate_def numGt_def numLt_iff split: option.splits)
  have noop: "applyColumnFilter h (filters(key col \<mapsto> \<lparr>op = ''range'', val = FString v, value2 = None\<rparr>)) rows col = rows"
    "applyColumnFilter h (filters(key col \<mapsto> \<lparr>op = ''range'', val = FString v, value2 = Some []\<rparr>)) rows col = rows"
    "applyColumnFilter h (filters(key col \<mapsto> \<lparr>op = ''range'', val = FString [], value2 = Some v2\<rparr>)) rows col = rows"
    "applyColumnFilter h (filters(key col \<mapsto> \<lparr>op = ''range'', val = FUndefined, value2 = Some v2\<rparr>)) rows col = rows"
    "applyColumnFilter h (filters(key col \<mapsto> \<lparr>op = ''before'', val = FString [], value2 = w\<rparr>)) rows col = rows"
    "applyColumnFilter h (filters(key col \<mapsto> \<lparr>op = ''after'', val = FString [], value2 = w\<rparr>)) rows col = rows"
    using assms by (simp_all add: applyColumnFilter_entry fvalTruthy_def datePredicate_def)
  from range before after noop show ?thesis by blast
qed

lemma ev_dates:
  "isoDateParse ''2020-01-01'' = Some 1577836800000"
  "isoDateParse ''2021-01-01'' = Some 1609459200000"
  "isoDateParse ''2020-06-01'' = Some 1590969600000"
  "isoDateParse ''2018-09-15'' = Some 1536969600000"
  "isoDateParse ''2021-01-10'' = Some 1610236800000"
  by code_simp+

theorem date_filter_clauses_witness:
  "type ((col0 ''joined'')\<lparr>type := Some TDate\<rparr>) = Some TDate \<and> ''2020-01-01'' \<noteq> [] \<and> ''2021-01-01'' \<noteq> []
   \<and> applyColumnFilter isoHost
        [key ((col0 ''joined'')\<lparr>type := Some TDate\<rparr>) \<mapsto> \<lparr>op = ''range'', val = FString ''2020-01-01'', value2 = Some ''2021-01-01''\<rparr>]
        [[(''joined'', Str ''2020-06-01'')], [(''joined'', Str ''2018-09-15'')],
         [(''joined'', Str ''2020-01-01'')], [(''joined'', Str ''2021-01-01'')],
         [(''joined'', Str ''2021-01-10'')], [(''id'', Num 6)]]
        ((col0 ''joined'')\<lparr>type := Some TDate\<rparr>)
       = [[(''joined'', Str ''2020-06-01'')], [(''joined'', Str ''2020-01-01'')],
          [(''joined'', Str ''2021-01-01'')]]
   \<and> applyColumnFilter isoHost
        [key ((col0 ''joined'')\<lparr>type := Some TDate\<rparr>) \<mapsto> \<lparr>op = ''before'', val = FString ''2020-01-01'', value2 = None\<rparr>]
        [[(''joined'', Str ''2020-06-01'')], [(''joined'', Str ''2018-09-15'')],
         [(''joined'', Str ''2020-01-01'')], [(''joined'', Str ''2021-01-01'')],
         [(''joined'', Str ''2021-01-10'')], [(''id'', Num 6)]]
        ((col0 ''joined'')\<lparr>type := Some TDate\<rparr>)
       = [[(''joined'', Str ''2018-09-15'')]]
   \<and> applyColumnFilter isoHost
        [key ((col0 ''joined'')\<lparr>type := Some TDate\<rparr>) \<mapsto> \<lparr>op = ''after'', val = FString ''2020-01-01'', value2 = None\<rparr>]
        [[(''joined'', Str ''2020-06-01'')], [(''joined'', Str ''2018-09-15'')],
         [(''joined'', Str ''2020-01-01'')], [(''joined'', Str ''2021-01-01'')],
         [(''joined'', Str ''2021-01-10'')], [(''id'', Num 6)]]
        ((col0 ''joined'')\<lparr>type := Some TDate\<rparr>)
       = [[(''joined'', Str ''2020-06-01'')], [(''joined'', Str ''2021-01-01'')],
          [(''joined'', Str ''2021-01-10'')]]
   \<and> applyColumnFilter isoHost
        [key ((col0 ''joined'')\<lparr>type := Some TDate\<rparr>) \<mapsto> \<lparr>op = ''range'', val = FString ''2020-01-01'', value2 = None\<rparr>]
        [[(''joined'', Str ''2020-06-01'')], [(''joined'', Str ''2018-09-15'')],
         [(''joined'', Str ''2020-01-01'')], [(''joined'', Str ''2021-01-01'')],
         [(''joined'', Str ''2021-01-10'')], [(''id'', Num 6)]]
        ((col0 ''joined'')\<lparr>type := Some TDate\<rparr>)
       = [[(''joined'', Str ''2020-06-01'')], [(''joined'', Str ''2018-09-15'')],
          [(''joined'', Str ''2020-01-01'')], [(''joined'', Str ''2021-01-01'')],
          [(''joined'', Str ''2021-01-10'')], [(''id'', Num 6)]]"
proof -
  have h1: "type ((col0 ''joined'')\<lparr>type := Some TDate\<rparr>) = Some TDate" by simp
  have h2: "''2020-01-01'' \<noteq> []" and h3: "''2021-01-01'' \<noteq> []" by simp_all
  note t = date_filter_clauses [OF h1 h2 h3, where h = isoHost and filters = Map.empty and w = None
      and rows = "[[(''joined'', Str ''2020-06-01'')], [(''joined'', Str ''2018-09-15'')],
         [(''joined'', Str ''2020-01-01'')], [(''joined'', Str ''2021-01-01'')],
         [(''joined'', Str ''2021-01-10'')], [(''id'', Num 6)]]"]
  show ?thesis
    using t
    by (simp add: col0_def rowDate_def getField_def truthy_def newDate_def isoHost_def ev_dates)
qed

text \<open>
  Claim C4 as stated fails twice. A column that is date-kind by \<open>filterType\<close> alone gets
  the date inputs in the header, but \<open>filteredData\<close> runs the text branch on it: a range
  with \<open>value2\<close> missing keeps only the row whose text contains the first bound. And on a
  column of type date the field \<open>0\<close>, whose date is the epoch, is before 2020-01-01, yet
  the row is dropped, because the field is falsy.
\<close>

theorem date_filter_counterexample:
  "resolvedFilterType ((col0 ''joined'')\<lparr>filterType := Some FDate\<rparr>) = FDate
   \<and> filteredData isoHost
        [[(''joined'', Str ''2020-06-01'')], [(''joined'', Str ''2018-09-15'')],
         [(''joined'', Str ''2020-01-01'')], [(''joined'', Str ''2021-01-10'')]] []
        [''joined'' \<mapsto> \<lparr>op = ''range'', val = FString ''2020-01-01'', value2 = None\<rparr>]
        [''joined''] [(col0 ''joined'')\<lparr>filterType := Some FDate\<rparr>]
       = [[(''joined'', Str ''2020-01-01'')]]
   \<and> newDate isoHost (Num 0) = Some 0
   \<and> newDate isoHost (Str ''2020-01-01'') = Some 1577836800000
   \<and> filteredData isoHost [[(''joined'', Num 0)]] []
        [''joined'' \<mapsto> \<lparr>op = ''before'', val = FString ''2020-01-01'', value2 = None\<rparr>]
        [''joined''] [(col0 ''joined'')\<lparr>type := Some TDate\<rparr>]
       = []"
  by (simp add: resolvedFilterType_def filteredData_def trim_def applyColumnFilter_def
      columnPredicate_def col0_def fvalTruthy_def containsPredicate_def datePredicate_def
      rowDate_def truthy_def getField_def jsString_def newDate_def timeClip_def isoHost_def
      ev_dates toLowerCase_def toLowerChar_def lowerTable_def)

subsection \<open>Resolution of the filter kind\<close>

text \<open>
  Claim C1 at a failing input. The column has type date and \<open>filterType\<close> dropdown, so
  the header renders the multi-select dropdown, which stores \<open>{op: 'in', value: [...]}\<close>.
  \<open>filteredData\<close> tests the type first, takes the date branch, finds no date operator
  and keeps every row; the same entry on a column without a type filters by membership.
\<close>

theorem filterType_not_honoured:
  "resolvedFilterType ((col0 ''joined'')\<lparr>type := Some TDate, filterType := Some FDropdown\<rparr>) = FDropdown
   \<and> getDropdownFilterValue (FArray [''2020-06-01'']) = [''2020-06-01'']
   \<and> filteredData isoHost
        [[(''joined'', Str ''2020-06-01'')], [(''joined'', Str ''2018-09-15'')]] []
        [''joined'' \<mapsto> \<lparr>op = ''in'', val = FArray [''2020-06-01''], value2 = None\<rparr>]
        [''joined''] [(col0 ''joined'')\<lparr>type := Some TDate, filterType := Some FDropdown\<rparr>]
       = [[(''joined'', Str ''2020-06-01'')], [(''joined'', Str ''2018-09-15'')]]
   \<and> filteredData isoHost
        [[(''joined'', Str ''2020-06-01'')], [(''joined'', Str ''2018-09-15'')]] []
        [''joined'' \<mapsto> \<lparr>op = ''in'', val = FArray [''2020-06-01''], value2 = None\<rparr>]
        [''joined''] [(col0 ''joined'')\<lparr>filterType := Some FDropdown\<rparr>]
       = [[(''joined'', Str ''2020-06-01'')]]"
  by (simp add: resolvedFilterType_def filteredData_def trim_def applyColumnFilter_def
      columnPredicate_def col0_def fvalTruthy_def datePredicate_def dropdownPredicate_def
      getDropdownFilterValue_def getField_def jsString_def)

subsection \<open>Dropdown values\<close>




section \<open>Properties of the sort\<close>

lemma sortBy_Cons: "sortBy cmp (x # xs) = insertBy cmp x (sortBy cmp xs)"
  by (simp add: sortBy_def)

lemma sortBy_Nil: "sortBy cmp [] = []"
  by (simp add: sortBy_def)

lemma mset_insertBy: "mset (insertBy cmp x ys) = add_mset x (mset ys)"
  by (induction ys) simp_all

lemma mset_sortBy: "mset (sortBy cmp xs) = mset xs"
  by (induction xs) (simp_all add: sortBy_Nil sortBy_Cons mset_insertBy)

lemma set_insertBy: "set (insertBy cmp x ys) = insert x (set ys)"
  using mset_insertBy [of cmp x ys] by (metis set_mset_add_mset_insert set_mset_mset)

lemma set_sortBy: "set (sortBy cmp xs) = set xs"
  using mset_sortBy [of cmp xs] by (metis set_mset_mset)

lemma compareRows_null_left:
  "isNullish (getField a (sortKey s)) \<Longrightarrow> compareRows h s a b = 1"
  by (simp add: compareRows_def Let_def)

lemma compareRows_null_right:
  "\<not> isNullish (getField a (sortKey s)) \<Longrightarrow> isNullish (getField b (sortKey s))
     \<Longrightarrow> compareRows h s a b = - 1"
  by (simp add: compareRows_def Let_def)

lemma compareRows_direction:
  "\<not> isNullish (getField a k) \<Longrightarrow> \<not> isNullish (getField b k) \<Longrightarrow>
     compareRows h \<lparr>sortKey = k, direction = Desc\<rparr> a b
       = compareRows h \<lparr>sortKey = k, direction = Asc\<rparr> b a"
  by (cases "getField a k"; cases "getField b k") (simp_all add: compareRows_def Let_def)

lemma insertBy_null:
  assumes "isNullish (getField x (sortKey s))"
  shows "insertBy (compareRows h s) x ys = ys @ [x]"
  using compareRows_null_left [OF assms, of h] by (induction ys) simp_all

lemma insertBy_nonnull:
  assumes "\<not> isNullish (getField x (sortKey s))"
    and "\<forall>r\<in>set front. \<not> isNullish (getField r (sortKey s))"
    and "\<forall>r\<in>set rear. isNullish (getField r (sortKey s))"
  shows "insertBy (compareRows h s) x (front @ rear) = insertBy (compareRows h s) x front @ rear"
  using assms(2)
proof (induction front)
  case Nil
  show ?case
  proof (cases rear)
    case Nil
    then show ?thesis by simp
  next
    case (Cons y ys)
    then have "compareRows h s x y = - 1"
      using assms(1,3) by (simp add: compareRows_null_right)
    then show ?thesis using Cons by simp
  qed
next
  case (Cons f fs)
  then show ?case by simp
qed

lemma sortBy_nulls_last:
  "\<exists>front rear. sortBy (compareRows h s) rows = front @ rear
     \<and> (\<forall>r\<in>set front. \<not> isNullish (getField r (sortKey s)))
     \<and> (\<forall>r\<in>set rear. isNullish (getField r (sortKey s)))"
proof (induction rows)
  case Nil
  show ?case by (simp add: sortBy_Nil)
next
  case (Cons x rows)
  then obtain front rear where fb: "sortBy (compareRows h s) rows = front @ rear"
    and f: "\<forall>r\<in>set front. \<not> isNullish (getField r (sortKey s))"
    and b: "\<forall>r\<in>set rear. isNullish (getField r (sortKey s))"
    by blast
  show ?case
  proof (cases "isNullish (getField x (sortKey s))")
    case True
    then have "sortBy (compareRows h s) (x # rows) = front @ (rear @ [x])"
      using fb by (simp add: sortBy_Cons insertBy_null)
    moreover have "\<forall>r\<in>set (rear @ [x]). isNullish (getField r (sortKey s))"
      using b True by simp
    ultimately show ?thesis using f by blast
  next
    case False
    then have "sortBy (compareRows h s) (x # rows) = insertBy (compareRows h s) x front @ rear"
      using fb f b by (simp add: sortBy_Cons insertBy_nonnull)
    moreover have "\<forall>r\<in>set (insertBy (compareRows h s) x front). \<not> isNullish (getField r (sortKey s))"
      using f False by (simp add: set_insertBy)
    ultimately show ?thesis using b by blast
  qed
qed

lemma ev_sort_age:
  "sortedData isoHost (Some \<lparr>sortKey = ''age'', direction = Asc\<rparr>) sampleRows
     = [sampleRows ! 2, sampleRows ! 1, sampleRows ! 3, sampleRows ! 0]"
  "sortedData isoHost (Some \<lparr>sortKey = ''age'', direction = Desc\<rparr>) sampleRows
     = [sampleRows ! 3, sampleRows ! 1, sampleRows ! 2, sampleRows ! 0]"
  by (simp_all add: sortedData_def sortBy_def sampleRows_def compareRows_def getField_def isNullish_def
      jsString_def isoHost_def)

text \<open>
  Claim C8. Under an active sort the output is the rows with a non-null field followed by
  the rows whose field is \<open>null\<close> or absent, in either direction, and it is a
  permutation of the input. The comparator puts a null first argument after anything (1) and
  a null second argument after a non-null first (-1) whatever the direction; on two non-null
  values descending is ascending with the arguments swapped.
\<close>

theorem nulls_sort_last:
  assumes "isNullish (getField n k)" and "\<not> isNullish (getField a k)" and "\<not> isNullish (getField b k)"
  shows "(\<exists>front rear. sortedData h (Some s) rows = front @ rear
       \<and> (\<forall>r\<in>set front. \<not> isNullish (getField r (sortKey s)))
       \<and> (\<forall>r\<in>set rear. isNullish (getField r (sortKey s))))
     \<and> mset (sortedData h (Some s) rows) = mset rows
     \<and> compareRows h \<lparr>sortKey = k, direction = d\<rparr> n r = 1
     \<and> compareRows h \<lparr>sortKey = k, direction = d\<rparr> a n = - 1
     \<and> compareRows h \<lparr>sortKey = k, direction = Desc\<rparr> a b
         = compareRows h \<lparr>sortKey = k, direction = Asc\<rparr> b a"
proof -
  have 1: "\<exists>front rear. sortedData h (Some s) rows = front @ rear
       \<and> (\<forall>r\<in>set front. \<not> isNullish (getField r (sortKey s)))
       \<and> (\<forall>r\<in>set rear. isNullish (getField r (sortKey s)))"
    using sortBy_nulls_last [of h s rows] by (simp add: sortedData_def)
  have 2: "mset (sortedData h (Some s) rows) = mset rows"
    by (simp add: sortedData_def mset_sortBy)
  have 3: "compareRows h \<lparr>sortKey = k, direction = d\<rparr> n r = 1"
    using assms(1) by (simp add: compareRows_null_left)
  have 4: "compareRows h \<lparr>sortKey = k, direction = d\<rparr> a n = - 1"
    using assms(1,2) by (simp add: compareRows_null_right)
  have 5: "compareRows h \<lparr>sortKey = k, direction = Desc\<rparr> a b
         = compareRows h \<lparr>sortKey = k, direction = Asc\<rparr> b a"
    using assms(2,3) by (rule compareRows_direction)
  from 1 2 3 4 5 show ?thesis by blast
qed

theorem nulls_sort_last_witness:
  "isNullish (getField (sampleRows ! 0) ''age'')
   \<and> \<not> isNullish (getField (sampleRows ! 1) ''age'')
   \<and> \<not> isNullish (getField (sampleRows ! 3) ''age'')
   \<and> compareRows isoHost \<lparr>sortKey = ''age'', direction = Desc\<rparr> (sampleRows ! 0) (sampleRows ! 1) = 1
   \<and> compareRows isoHost \<lparr>sortKey = ''age'', direction = Desc\<rparr> (sampleRows ! 1) (sampleRows ! 0) = - 1
   \<and> sortedData isoHost (Some \<lparr>sortKey = ''age'', direction = Asc\<rparr>) sampleRows
       = [sampleRows ! 2, sampleRows ! 1, sampleRows ! 3, sampleRows ! 0]
   \<and> sortedData isoHost (Some \<lparr>sortKey = ''age'', direction = Desc\<rparr>) sampleRows
       = [sampleRows ! 3, sampleRows ! 1, sampleRows ! 2, sampleRows ! 0]"
proof -
  have h1: "isNullish (getField (sampleRows ! 0) ''age'')"
    by (simp add: sampleRows_def getField_def isNullish_def)
  have h2: "\<not> isNullish (getField (sampleRows ! 1) ''age'')"
    by (simp add: sampleRows_def getField_def isNullish_def)
  have h3: "\<not> isNullish (getField (sampleRows ! 3) ''age'')"
    by (simp add: sampleRows_def getField_def isNullish_def)
  note t = nulls_sort_last [OF h1 h2 h3, where h = isoHost and d = Desc and r = "sampleRows ! 1"
      and s = "\<lparr>sortKey = ''age'', direction = Desc\<rparr>" and rows = sampleRows]
  from t h1 h2 h3 ev_sort_age show ?thesis by simp
qed

subsection \<open>Order among rows that compare equal\<close>

lemma sortedData_sortBy: "sortedData h sortSt rows = sortedDataWith sortBy h sortSt rows"
  by (simp add: sortedData_def sortedDataWith_def)

lemma consistent_sym0:
  "consistentOn cmp S \<Longrightarrow> a \<in> S \<Longrightarrow> b \<in> S \<Longrightarrow> cmp a b = 0 \<Longrightarrow> cmp b a = 0"
  unfolding consistentOn_def by (metis less_le not_less)

lemma consistent_le_flip:
  "consistentOn cmp S \<Longrightarrow> a \<in> S \<Longrightarrow> b \<in> S \<Longrightarrow> (cmp a b \<le> 0) = (cmp b a \<ge> 0)"
  unfolding consistentOn_def by (metis not_less)

lemma consistent_le_trans:
  "consistentOn cmp S \<Longrightarrow> a \<in> S \<Longrightarrow> b \<in> S \<Longrightarrow> c \<in> S \<Longrightarrow>
     cmp a b \<le> 0 \<Longrightarrow> cmp b c \<le> 0 \<Longrightarrow> cmp a c \<le> 0"
  unfolding consistentOn_def by blast


lemma consistent_le_less_trans:
  assumes "consistentOn cmp S" "a \<in> S" "b \<in> S" "c \<in> S" "cmp a b \<le> 0" "cmp b c < 0"
  shows "cmp a c < 0"
proof (rule ccontr)
  assume "\<not> cmp a c < 0"
  then have "cmp c a \<le> 0" using consistent_le_flip [OF assms(1,4,2)] by simp
  with assms(5) have "cmp c b \<le> 0" using consistent_le_trans [OF assms(1,4,2,3)] by simp
  then have "cmp b c \<ge> 0" using consistent_le_flip [OF assms(1,4,3)] by simp
  with assms(6) show False by simp
qed

lemma consistent_eq_trans:
  assumes "consistentOn cmp S" "a \<in> S" "b \<in> S" "c \<in> S" "cmp a b = 0" "cmp b c = 0"
  shows "cmp a c = 0"
proof -
  have "cmp a c \<le> 0" using consistent_le_trans [OF assms(1-4)] assms(5,6) by simp
  moreover have "cmp c b = 0" "cmp b a = 0"
    using consistent_sym0 [OF assms(1)] assms by blast+
  then have "cmp c a \<le> 0" using consistent_le_trans [OF assms(1,4,3,2)] by simp
  then have "cmp a c \<ge> 0" using consistent_le_flip [OF assms(1,4,2)] by simp
  ultimately show ?thesis by simp
qed

lemma consistent_subset: "consistentOn cmp S \<Longrightarrow> T \<subseteq> S \<Longrightarrow> consistentOn cmp T"
  unfolding consistentOn_def by blast


text \<open>The insertion sort keeps the order among equals on a consistent comparator.\<close>

lemma insertBy_filter:
  assumes cons: "consistentOn cmp S" and a: "a \<in> S" and x: "x \<in> S"
  shows "set ys \<subseteq> S \<Longrightarrow>
     filter (\<lambda>b. cmp a b = 0) (insertBy cmp x ys) = filter (\<lambda>b. cmp a b = 0) (x # ys)"
proof (induction ys)
  case Nil
  then show ?case by simp
next
  case (Cons y ys)
  have yS: "y \<in> S" and ysS: "set ys \<subseteq> S" using Cons.prems by simp_all
  show ?case
  proof (cases "cmp x y \<le> 0")
    case True
    then show ?thesis by simp
  next
    case False
    have "\<not> (cmp a x = 0 \<and> cmp a y = 0)"
    proof
      assume h: "cmp a x = 0 \<and> cmp a y = 0"
      then have "cmp x a = 0" using consistent_sym0 [OF cons a x] by simp
      then have "cmp x y = 0" using consistent_eq_trans [OF cons x a yS] h by simp
      then show False using False by simp
    qed
    then show ?thesis using False Cons.IH [OF ysS] by auto
  qed
qed

lemma sortBy_filter:
  assumes cons: "consistentOn cmp S" and a: "a \<in> S"
  shows "set xs \<subseteq> S \<Longrightarrow>
     filter (\<lambda>b. cmp a b = 0) (sortBy cmp xs) = filter (\<lambda>b. cmp a b = 0) xs"
proof (induction xs)
  case Nil
  then show ?case by (simp add: sortBy_Nil)
next
  case (Cons x xs)
  have xS: "x \<in> S" and xsS: "set xs \<subseteq> S" using Cons.prems by simp_all
  have "set (sortBy cmp xs) \<subseteq> S" using xsS by (simp add: set_sortBy)
  then have "filter (\<lambda>b. cmp a b = 0) (insertBy cmp x (sortBy cmp xs))
      = filter (\<lambda>b. cmp a b = 0) (x # sortBy cmp xs)"
    by (rule insertBy_filter [OF cons a xS])
  then show ?case using Cons.IH [OF xsS] by (simp add: sortBy_Cons)
qed

lemma sortBy_stableOnConsistent: "stableOnConsistent sortBy"
  unfolding stableOnConsistent_def
proof (intro allI impI ballI)
  fix cmp :: "'a \<Rightarrow> 'a \<Rightarrow> int" and xs a
  assume "consistentOn cmp (set xs)" and "a \<in> set xs"
  then show "filter (\<lambda>b. cmp a b = 0) (sortBy cmp xs) = filter (\<lambda>b. cmp a b = 0) xs"
    by (rule sortBy_filter) simp
qed







lemma extendRun_le: "extendRun cmp d prev rest \<le> length rest"
  by (induction rest arbitrary: prev) (simp_all add: Let_def)

lemma extendRun_chain:
  "successively (\<lambda>p c. if d then cmp c p < 0 else cmp c p \<ge> 0)
     (prev # take (extendRun cmp d prev rest) rest)"
proof (induction rest arbitrary: prev)
  case Nil
  then show ?case by simp
next
  case (Cons c rest)
  show ?case using Cons.IH [of c] by (auto simp add: Let_def)
qed












subsection \<open>Null fields under the sort of V8\<close>

text \<open>
  The comparator's two early returns also drive V8's sort to put the null rows last: a null
  pivot is never below an element, so the binary search ends at the right end, and a
  non-null pivot is below every null element, so it ends before them; a run that ascends has
  no non-null row after a null one, and a run that descends has no null row but its first.
\<close>

lemma binarySearch_right:
  "\<forall>i<n. \<not> cmp pivot (work ! i) < 0 \<Longrightarrow> left \<le> right \<Longrightarrow> right \<le> n
     \<Longrightarrow> binarySearch cmp pivot work left right = right"
proof (induction cmp pivot work left right rule: binarySearch.induct)
  case (1 cmp pivot work left right)
  show ?case
  proof (cases "left < right")
    case False
    then show ?thesis using "1.prems" by (subst binarySearch.simps) simp
  next
    case True
    define mid where "mid = left + (right - left) div 2"
    have m: "left \<le> mid" "mid < right" using True by (simp_all add: mid_def)
    then have ge: "\<not> cmp pivot (work ! mid) < 0" using "1.prems" by simp
    have "binarySearch cmp pivot work left right = binarySearch cmp pivot work (Suc mid) right"
      using True ge by (subst binarySearch.simps) (simp add: mid_def Let_def)
    moreover have "binarySearch cmp pivot work (Suc mid) right = right"
      using "1.IH"(2) [OF True mid_def ge "1.prems"(1) _ "1.prems"(3)] m by simp
    ultimately show ?thesis by simp
  qed
qed

lemma binarySearch_upper:
  "\<forall>i. m \<le> i \<and> i < n \<longrightarrow> cmp pivot (work ! i) < 0 \<Longrightarrow> left \<le> m \<Longrightarrow> left \<le> right
     \<Longrightarrow> right \<le> n \<Longrightarrow> binarySearch cmp pivot work left right \<le> m"
proof (induction cmp pivot work left right rule: binarySearch.induct)
  case (1 cmp pivot work left right)
  show ?case
  proof (cases "left < right")
    case False
    then show ?thesis using "1.prems" by (subst binarySearch.simps) simp
  next
    case True
    define mid where "mid = left + (right - left) div 2"
    have m: "left \<le> mid" "mid < right" using True by (simp_all add: mid_def)
    show ?thesis
    proof (cases "cmp pivot (work ! mid) < 0")
      case lt: True
      have "binarySearch cmp pivot work left right = binarySearch cmp pivot work left mid"
        using True lt by (subst binarySearch.simps) (simp add: mid_def Let_def)
      moreover have "binarySearch cmp pivot work left mid \<le> m"
        using "1.IH"(1) [OF True mid_def lt "1.prems"(1,2) m(1)] m "1.prems"(4) by simp
      ultimately show ?thesis by simp
    next
      case ge: False
      have "mid < m" using ge "1.prems"(1,4) m by (metis le_less_trans not_le_imp_less less_le_trans)
      then have sm: "Suc mid \<le> m" by simp
      have "binarySearch cmp pivot work left right = binarySearch cmp pivot work (Suc mid) right"
        using True ge by (subst binarySearch.simps) (simp add: mid_def Let_def)
      moreover have "binarySearch cmp pivot work (Suc mid) right \<le> m"
        using "1.IH"(2) [OF True mid_def ge "1.prems"(1) sm _ "1.prems"(4)] m by simp
      ultimately show ?thesis by simp
    qed
  qed
qed

lemma binaryInsert_nullsLast:
  assumes "nullsLast (sortKey s) work"
  shows "nullsLast (sortKey s) (binaryInsert (compareRows h s) work pivot)"
proof -
  from assms obtain front rear where w: "work = front @ rear"
    and f: "\<forall>r\<in>set front. \<not> isNullish (getField r (sortKey s))"
    and b: "\<forall>r\<in>set rear. isNullish (getField r (sortKey s))"
    unfolding nullsLast_def by blast
  show ?thesis
  proof (cases "isNullish (getField pivot (sortKey s))")
    case True
    then have "\<forall>i<length work. \<not> compareRows h s pivot (work ! i) < 0"
      by (simp add: compareRows_null_left)
    then have "binarySearch (compareRows h s) pivot work 0 (length work) = length work"
      by (rule binarySearch_right) simp_all
    then have "binaryInsert (compareRows h s) work pivot = front @ (rear @ [pivot])"
      by (simp add: binaryInsert_def w)
    moreover have "\<forall>r\<in>set (rear @ [pivot]). isNullish (getField r (sortKey s))"
      using b True by simp
    ultimately show ?thesis using f unfolding nullsLast_def by blast
  next
    case False
    have "\<forall>i. length front \<le> i \<and> i < length work \<longrightarrow> compareRows h s pivot (work ! i) < 0"
    proof (intro allI impI)
      fix i assume i: "length front \<le> i \<and> i < length work"
      then have "work ! i = rear ! (i - length front)" by (simp add: w nth_append)
      moreover have "i - length front < length rear" using i w by auto
      ultimately have "isNullish (getField (work ! i) (sortKey s))" using b by simp
      then show "compareRows h s pivot (work ! i) < 0"
        using False by (simp add: compareRows_null_right)
    qed
    then have k: "binarySearch (compareRows h s) pivot work 0 (length work) \<le> length front"
      by (rule binarySearch_upper) simp_all
    define k where "k = binarySearch (compareRows h s) pivot work 0 (length work)"
    have "binaryInsert (compareRows h s) work pivot = (take k front @ pivot # drop k front) @ rear"
      using k by (simp add: binaryInsert_def k_def w Let_def)
    moreover have "\<forall>r\<in>set (take k front @ pivot # drop k front). \<not> isNullish (getField r (sortKey s))"
      using f False by (auto dest: in_set_takeD in_set_dropD)
    ultimately show ?thesis using b unfolding nullsLast_def by blast
  qed
qed

lemma foldl_binaryInsert_nullsLast:
  "nullsLast (sortKey s) acc \<Longrightarrow> nullsLast (sortKey s) (foldl (binaryInsert (compareRows h s)) acc rest)"
  by (induction rest arbitrary: acc) (simp_all add: binaryInsert_nullsLast)

lemma ascending_after_null:
  "successively (\<lambda>p c. compareRows h s c p \<ge> 0) (p # run) \<Longrightarrow> isNullish (getField p (sortKey s))
     \<Longrightarrow> \<forall>r\<in>set run. isNullish (getField r (sortKey s))"
proof (induction run arbitrary: p)
  case Nil
  then show ?case by simp
next
  case (Cons c run)
  have "compareRows h s c p \<ge> 0" using Cons.prems(1) by simp
  then have c: "isNullish (getField c (sortKey s))"
    using Cons.prems(2) compareRows_null_right [of c s p h] by force
  moreover have "successively (\<lambda>p c. compareRows h s c p \<ge> 0) (c # run)"
    using Cons.prems(1) by simp
  ultimately show ?case using Cons.IH by simp
qed

lemma ascending_nullsLast:
  "successively (\<lambda>p c. compareRows h s c p \<ge> 0) run \<Longrightarrow> nullsLast (sortKey s) run"
proof (induction run)
  case Nil
  then show ?case by (simp add: nullsLast_def)
next
  case (Cons p run)
  show ?case
  proof (cases "isNullish (getField p (sortKey s))")
    case True
    then have "\<forall>r\<in>set (p # run). isNullish (getField r (sortKey s))"
      using ascending_after_null [OF Cons.prems] by simp
    then have "p # run = [] @ (p # run) \<and> (\<forall>r\<in>set []. \<not> isNullish (getField r (sortKey s)))
        \<and> (\<forall>r\<in>set (p # run). isNullish (getField r (sortKey s)))"
      by simp
    then show ?thesis unfolding nullsLast_def by blast
  next
    case False
    have "successively (\<lambda>p c. compareRows h s c p \<ge> 0) run"
      using Cons.prems by (cases run) simp_all
    then obtain front rear where "run = front @ rear"
      "\<forall>r\<in>set front. \<not> isNullish (getField r (sortKey s))"
      "\<forall>r\<in>set rear. isNullish (getField r (sortKey s))"
      using Cons.IH unfolding nullsLast_def by blast
    then have "p # run = (p # front) @ rear \<and> (\<forall>r\<in>set (p # front). \<not> isNullish (getField r (sortKey s)))
        \<and> (\<forall>r\<in>set rear. isNullish (getField r (sortKey s)))"
      using False by simp
    then show ?thesis unfolding nullsLast_def by blast
  qed
qed

lemma descending_tail_nonnull:
  "successively (\<lambda>p c. compareRows h s c p < 0) (p # run)
     \<Longrightarrow> \<forall>r\<in>set run. \<not> isNullish (getField r (sortKey s))"
proof (induction run arbitrary: p)
  case Nil
  then show ?case by simp
next
  case (Cons c run)
  have "compareRows h s c p < 0" using Cons.prems by simp
  then have "\<not> isNullish (getField c (sortKey s))"
    using compareRows_null_left [of c s h p] by force
  moreover have "successively (\<lambda>p c. compareRows h s c p < 0) (c # run)"
    using Cons.prems by simp
  ultimately show ?case using Cons.IH by simp
qed

lemma descending_rev_nullsLast:
  assumes "successively (\<lambda>p c. compareRows h s c p < 0) run"
  shows "nullsLast (sortKey s) (rev run)"
proof (cases run)
  case Nil
  then show ?thesis by (simp add: nullsLast_def)
next
  case (Cons p tl)
  then have t: "\<forall>r\<in>set tl. \<not> isNullish (getField r (sortKey s))"
    using assms descending_tail_nonnull by blast
  show ?thesis
  proof (cases "isNullish (getField p (sortKey s))")
    case True
    then have "rev run = rev tl @ [p] \<and> (\<forall>r\<in>set (rev tl). \<not> isNullish (getField r (sortKey s)))
        \<and> (\<forall>r\<in>set [p]. isNullish (getField r (sortKey s)))"
      using Cons t by simp
    then show ?thesis unfolding nullsLast_def by blast
  next
    case False
    then have "rev run = rev run @ [] \<and> (\<forall>r\<in>set (rev run). \<not> isNullish (getField r (sortKey s)))
        \<and> (\<forall>r\<in>set []. isNullish (getField r (sortKey s)))"
      using Cons t by simp
    then show ?thesis unfolding nullsLast_def by blast
  qed
qed

lemma v8Sort_nullsLast: "nullsLast (sortKey s) (v8Sort (compareRows h s) rows)"
proof (cases rows)
  case Nil
  then show ?thesis by (simp add: v8Sort_def nullsLast_def)
next
  case (Cons eh t)
  show ?thesis
  proof (cases t)
    case Nil
    have "[eh] = (if isNullish (getField eh (sortKey s)) then [] else [eh])
        @ (if isNullish (getField eh (sortKey s)) then [eh] else [])"
      by simp
    then have "nullsLast (sortKey s) [eh]" unfolding nullsLast_def
      by (intro exI [of _ "if isNullish (getField eh (sortKey s)) then [] else [eh]"]
          exI [of _ "if isNullish (getField eh (sortKey s)) then [eh] else []"]) simp
    then show ?thesis using Nil \<open>rows = eh # t\<close> by (simp add: v8Sort_def)
  next
    case (Cons el rest)
    define d where "d = (compareRows h s el eh < 0)"
    define n where "n = 2 + extendRun (compareRows h s) d el rest"
    define run where "run = take n rows"
    define run' where "run' = (if d then rev run else run)"
    have xs: "rows = eh # el # rest" using \<open>rows = eh # t\<close> Cons by simp
    have v: "v8Sort (compareRows h s) rows = foldl (binaryInsert (compareRows h s)) run' (drop n rows)"
      by (simp add: v8Sort_def xs Let_def run'_def run_def n_def d_def)
    have run_eq: "run = eh # el # take (extendRun (compareRows h s) d el rest) rest"
      by (simp add: run_def n_def xs)
    have chain: "successively (\<lambda>p c. if d then compareRows h s c p < 0 else compareRows h s c p \<ge> 0) run"
      using extendRun_chain [of d "compareRows h s" el rest] by (simp add: run_eq d_def)
    have "nullsLast (sortKey s) run'"
    proof (cases d)
      case True
      then have "successively (\<lambda>p c. compareRows h s c p < 0) run" using chain by simp
      then show ?thesis using True by (simp add: run'_def descending_rev_nullsLast)
    next
      case False
      then have "successively (\<lambda>p c. compareRows h s c p \<ge> 0) run" using chain by simp
      then show ?thesis using False by (simp add: run'_def ascending_nullsLast)
    qed
    then show ?thesis using v by (simp add: foldl_binaryInsert_nullsLast)
  qed
qed

lemma mset_binaryInsert: "mset (binaryInsert cmp work pivot) = add_mset pivot (mset work)"
proof -
  have "mset (take k work) + mset (drop k work) = mset work" for k
    by (metis append_take_drop_id mset_append)
  then show ?thesis by (simp add: binaryInsert_def Let_def)
qed

lemma mset_foldl_binaryInsert:
  "mset (foldl (binaryInsert cmp) acc rest) = mset acc + mset rest"
  by (induction rest arbitrary: acc) (simp_all add: mset_binaryInsert)

lemma mset_v8Sort: "mset (v8Sort cmp xs) = mset xs"
proof (cases xs)
  case Nil
  then show ?thesis by (simp add: v8Sort_def)
next
  case (Cons eh t)
  show ?thesis
  proof (cases t)
    case Nil
    then show ?thesis using \<open>xs = eh # t\<close> by (simp add: v8Sort_def)
  next
    case (Cons el rest)
    have "mset (take n xs) + mset (drop n xs) = mset xs" for n
      by (metis append_take_drop_id mset_append)
    then show ?thesis using \<open>xs = eh # t\<close> Cons
      by (simp add: v8Sort_def Let_def mset_foldl_binaryInsert del: take_Suc_Cons drop_Suc_Cons)
  qed
qed

lemma nulls_sort_last_v8:
  "nullsLast (sortKey s) (sortedDataWith v8Sort h (Some s) rows)
   \<and> mset (sortedDataWith v8Sort h (Some s) rows) = mset rows"
  by (simp add: sortedDataWith_def v8Sort_nullsLast mset_v8Sort)

section \<open>Properties of the sticky offset\<close>

lemma stickyLoop_fold:
  "i \<le> idx \<Longrightarrow> idx \<le> length cols \<Longrightarrow>
     stickyLoop cols idx i left
       = Inr (foldl numAdd left (map stickyWidth (take (idx - i) (drop i cols))))"
proof (induction cols idx i left rule: stickyLoop.induct)
  case (1 cols idx i left)
  show ?case
  proof (cases "i < idx")
    case True
    then have il: "i < length cols" using "1.prems" by simp
    have step: "stickyLoop cols idx i left
        = stickyLoop cols idx (Suc i) (numAdd left (stickyWidth (cols ! i)))"
      using True il by (subst stickyLoop.simps) simp
    have ih: "stickyLoop cols idx (Suc i) (numAdd left (stickyWidth (cols ! i)))
        = Inr (foldl numAdd (numAdd left (stickyWidth (cols ! i)))
            (map stickyWidth (take (idx - Suc i) (drop (Suc i) cols))))"
      using "1.IH" [OF True il] True "1.prems" by simp
    have "take (idx - i) (drop i cols) = cols ! i # take (idx - Suc i) (drop (Suc i) cols)"
      using True il by (metis Cons_nth_drop_Suc Suc_diff_Suc take_Suc_Cons)
    then show ?thesis using step ih by simp
  next
    case False
    then have "i = idx" using "1.prems" by simp
    then show ?thesis by (subst stickyLoop.simps) simp
  qed
qed

lemma getStickyLeft_fold:
  "idx \<le> length cols \<Longrightarrow>
     getStickyLeft cols idx = Inr (foldl numAdd (Some 0) (map stickyWidth (take idx cols)))"
  using stickyLoop_fold [of 0 idx cols "Some 0"] by (simp add: getStickyLeft_def)

lemma foldl_numAdd_Some:
  "foldl numAdd (Some a) (map Some ws) = Some (a + sum_list ws)"
  by (induction ws arbitrary: a) (simp_all add: numAdd_def add.assoc)

lemma getStickyLeft_sum:
  assumes "map stickyWidth cols = map Some ws" and "idx \<le> length cols"
  shows "getStickyLeft cols idx = Inr (Some (sum_list (take idx ws)))"
proof -
  have "map stickyWidth (take idx cols) = map Some (take idx ws)"
    using assms(1) by (metis take_map)
  then show ?thesis using getStickyLeft_fold [OF assms(2)] by (simp add: foldl_numAdd_Some)
qed

lemma endsWith_nonempty: "endsWith w s \<Longrightarrow> s \<noteq> [] \<Longrightarrow> w \<noteq> []"
  by (auto simp add: endsWith_def)

lemma ev_parseInt: "parseInt ''-5px'' = Some (- 5)" "parseInt ''120px'' = Some 120"
  "parseInt ''80px'' = Some 80"
  by code_simp+

lemma ev_endsWith: "endsWith ''-5px'' ''px''" "endsWith ''120px'' ''px''" "endsWith ''80px'' ''px''"
  "endsWith ''20%'' ''%''" "\<not> endsWith ''20%'' ''px''"
  by (simp_all add: endsWith_def)

text \<open>
  Claim C6, as the code has it. A width ending in \<open>px\<close> resolves to
  \<open>parseInt\<close> of it and an absent or percentage width to 120. When every resolved width
  of the displayed columns is a number, the offset of column \<open>i\<close> is the sum of the
  widths before it and the next offset is larger by the width of column \<open>i\<close>; the
  offsets do not decrease where that width is not negative.
\<close>

theorem sticky_offsets:
  assumes "map stickyWidth cols = map Some ws" and "i < length cols"
    and "width cp = Some wp" and "endsWith wp ''px''"
    and "width cq = None \<or> (\<exists>wq. width cq = Some wq \<and> endsWith wq ''%'' \<and> \<not> endsWith wq ''px'')"
  shows "stickyWidth cp = parseInt wp \<and> stickyWidth cq = Some 120
     \<and> getStickyLeft cols i = Inr (Some (sum_list (take i ws)))
     \<and> getStickyLeft cols (Suc i) = Inr (Some (sum_list (take i ws) + ws ! i))
     \<and> (0 \<le> ws ! i \<longrightarrow>
          (\<exists>a b. getStickyLeft cols i = Inr (Some a) \<and> getStickyLeft cols (Suc i) = Inr (Some b)
             \<and> a \<le> b))"
proof -
  have len: "length ws = length cols" using assms(1) by (metis length_map)
  have p: "stickyWidth cp = parseInt wp"
    using assms(3,4) endsWith_nonempty [OF assms(4)] by (simp add: stickyWidth_def)
  have q: "stickyWidth cq = Some 120"
    using assms(5) by (auto simp add: stickyWidth_def)
  have a: "getStickyLeft cols i = Inr (Some (sum_list (take i ws)))"
    using getStickyLeft_sum [OF assms(1), of i] assms(2) by simp
  have tk: "take (Suc i) ws = take i ws @ [ws ! i]"
    using assms(2) len by (simp add: take_Suc_conv_app_nth)
  have b: "getStickyLeft cols (Suc i) = Inr (Some (sum_list (take i ws) + ws ! i))"
    using getStickyLeft_sum [OF assms(1), of "Suc i"] assms(2) tk by simp
  have c: "0 \<le> ws ! i \<longrightarrow>
          (\<exists>a b. getStickyLeft cols i = Inr (Some a) \<and> getStickyLeft cols (Suc i) = Inr (Some b)
             \<and> a \<le> b)"
    using a b by simp
  from p q a b c show ?thesis by blast
qed

theorem sticky_offsets_witness:
  "map stickyWidth [(col0 ''id'')\<lparr>width := Some ''80px''\<rparr>, (col0 ''name'')\<lparr>width := Some ''20%''\<rparr>, col0 ''age'']
     = map Some [80, 120, 120]
   \<and> (1::nat) < length [(col0 ''id'')\<lparr>width := Some ''80px''\<rparr>, (col0 ''name'')\<lparr>width := Some ''20%''\<rparr>, col0 ''age'']
   \<and> width ((col0 ''id'')\<lparr>width := Some ''80px''\<rparr>) = Some ''80px'' \<and> endsWith ''80px'' ''px''
   \<and> (width ((col0 ''name'')\<lparr>width := Some ''20%''\<rparr>) = None
        \<or> (\<exists>wq. width ((col0 ''name'')\<lparr>width := Some ''20%''\<rparr>) = Some wq \<and> endsWith wq ''%'' \<and> \<not> endsWith wq ''px''))
   \<and> (0::int) \<le> [80, 120, 120] ! 1
   \<and> stickyWidth ((col0 ''id'')\<lparr>width := Some ''80px''\<rparr>) = Some 80
   \<and> getStickyLeft [(col0 ''id'')\<lparr>width := Some ''80px''\<rparr>, (col0 ''name'')\<lparr>width := Some ''20%''\<rparr>, col0 ''age''] 1
       = Inr (Some 80)
   \<and> getStickyLeft [(col0 ''id'')\<lparr>width := Some ''80px''\<rparr>, (col0 ''name'')\<lparr>width := Some ''20%''\<rparr>, col0 ''age''] 2
       = Inr (Some 200)"
proof -
  have h1: "map stickyWidth [(col0 ''id'')\<lparr>width := Some ''80px''\<rparr>, (col0 ''name'')\<lparr>width := Some ''20%''\<rparr>, col0 ''age'']
     = map Some [80, 120, 120]"
    by (simp add: stickyWidth_def col0_def ev_parseInt ev_endsWith)
  have h2: "(1::nat) < length [(col0 ''id'')\<lparr>width := Some ''80px''\<rparr>, (col0 ''name'')\<lparr>width := Some ''20%''\<rparr>, col0 ''age'']"
    by simp
  have h3: "width ((col0 ''id'')\<lparr>width := Some ''80px''\<rparr>) = Some ''80px''" by simp
  have h4: "endsWith ''80px'' ''px''" by (rule ev_endsWith)
  have h5: "width ((col0 ''name'')\<lparr>width := Some ''20%''\<rparr>) = None
        \<or> (\<exists>wq. width ((col0 ''name'')\<lparr>width := Some ''20%''\<rparr>) = Some wq \<and> endsWith wq ''%'' \<and> \<not> endsWith wq ''px'')"
    by (simp add: ev_endsWith)
  from sticky_offsets [OF h1 h2 h3 h4 h5] h1 h2 h3 h4 h5 show ?thesis
    by (simp add: ev_parseInt numeral_2_eq_2)
qed

text \<open>
  Claim C6 as stated fails on monotonicity: \<open>parseInt("-5px")\<close> is \<open>-5\<close>, so the
  offset of the second column is below that of the first.
\<close>

theorem sticky_offsets_counterexample:
  "endsWith ''-5px'' ''px''
   \<and> getStickyLeft [(col0 ''id'')\<lparr>width := Some ''-5px''\<rparr>, col0 ''name''] 0 = Inr (Some 0)
   \<and> getStickyLeft [(col0 ''id'')\<lparr>width := Some ''-5px''\<rparr>, col0 ''name''] 1 = Inr (Some (- 5))"
  by (simp add: getStickyLeft_def stickyLoop.simps stickyWidth_def col0_def ev_parseInt ev_endsWith numAdd_def)

section \<open>Properties of the popover handlers\<close>

text \<open>
  While the popover is open, a mouse-down outside both trigger and menu closes it, one inside
  the trigger or the menu leaves the state as it is, and Escape closes it.
\<close>

lemma popover_dismissal:
  assumes "isOpen p"
    and "\<not> inTrigger outside" and "\<not> inMenu outside"
    and "inTrigger inside \<or> inMenu inside"
  shows "handle outside p = p\<lparr>isOpen := False\<rparr>
     \<and> handle inside p = p
     \<and> handleKey ''Escape'' p = p\<lparr>isOpen := False\<rparr>"
  using assms by (auto simp add: handle_def handleKey_def)

text \<open>Selecting goes through \<open>onChange\<close>, and what comes back is a closed popover.\<close>

lemma select_closes:
  "\<not> isOpen (handleSelect opt p) \<and> \<not> isOpen (handleSelectAll p)
   \<and> options (handleSelect opt p) = options p \<and> options (handleSelectAll p) = options p"
  by (simp add: handleSelect_def handleSelectAll_def onChange_def remount_def)

text \<open>
  Claim C9 at a failing input. The popover is open with \<open>Admin\<close> selected out of
  \<open>Admin\<close> and \<open>User\<close>. Selecting \<open>User\<close> stores both options and leaves the popover
  closed, and so does select-all: each calls \<open>onChange\<close>, which renders \<open>Table\<close>
  and remounts the dropdown. The comment on \<open>handleSelect\<close> says "Only update value, do
  not close dropdown".
\<close>

theorem popover_select_closes:
  "isOpen \<lparr>isOpen = True, selected = [''Admin''], options = [''Admin'', ''User'']\<rparr>
   \<and> handleSelect ''User'' \<lparr>isOpen = True, selected = [''Admin''], options = [''Admin'', ''User'']\<rparr>
       = \<lparr>isOpen = False, selected = [''Admin'', ''User''], options = [''Admin'', ''User'']\<rparr>
   \<and> handleSelectAll \<lparr>isOpen = True, selected = [''Admin''], options = [''Admin'', ''User'']\<rparr>
       = \<lparr>isOpen = False, selected = [''Admin'', ''User''], options = [''Admin'', ''User'']\<rparr>"
  by (simp add: handleSelect_def handleSelectAll_def onChange_def remount_def allSelected_def
      getDropdownFilterValue_def fvalTruthy_def)

end
